theory Spec2Isabelle
  imports Main "HOL-Library.Word" "HOL-Library.Char_ord" "HOL-Library.List_Lexorder"
begin

section \<open>Package message: frames and headers\<close>

text \<open>
  A STOMP frame, as the struct \<^verbatim>\<open>Frame\<close> of package \<^verbatim>\<open>message\<close> has it: a command
  (a Go string, compared bytewise), the embedded header collection and the body.
  Go strings are byte sequences, so they are \<^typ>\<open>string\<close> here.
\<close>

type_synonym Headers = "(string \<times> string) list"

record Frame =
  Command :: string
  Headers :: Headers
  Body :: string

subsection \<open>Names of commands, headers and versions\<close>

text \<open>
  Modelled from the spec: the constants of package \<^verbatim>\<open>message\<close> (command names, header
  names, versions, ack modes) are declared in files that are not among the sources. They
  are the STOMP wire names the spec uses in its tables and scenarios. A name that is also
  a method of \<^verbatim>\<open>Frame\<close>, a type, or a constant of HOL carries the suffix \<open>_hdr\<close>.
\<close>

abbreviation CONNECT :: string where "CONNECT \<equiv> ''CONNECT''"
abbreviation STOMP :: string where "STOMP \<equiv> ''STOMP''"
abbreviation CONNECTED :: string where "CONNECTED \<equiv> ''CONNECTED''"
abbreviation SEND :: string where "SEND \<equiv> ''SEND''"
abbreviation SUBSCRIBE :: string where "SUBSCRIBE \<equiv> ''SUBSCRIBE''"
abbreviation UNSUBSCRIBE :: string where "UNSUBSCRIBE \<equiv> ''UNSUBSCRIBE''"
abbreviation ACK :: string where "ACK \<equiv> ''ACK''"
abbreviation NACK :: string where "NACK \<equiv> ''NACK''"
abbreviation BEGIN :: string where "BEGIN \<equiv> ''BEGIN''"
abbreviation COMMIT :: string where "COMMIT \<equiv> ''COMMIT''"
abbreviation ABORT :: string where "ABORT \<equiv> ''ABORT''"
abbreviation DISCONNECT :: string where "DISCONNECT \<equiv> ''DISCONNECT''"
abbreviation MESSAGE :: string where "MESSAGE \<equiv> ''MESSAGE''"
abbreviation RECEIPT :: string where "RECEIPT \<equiv> ''RECEIPT''"
abbreviation ERROR :: string where "ERROR \<equiv> ''ERROR''"

abbreviation ContentLength_hdr :: string where "ContentLength_hdr \<equiv> ''content-length''"
abbreviation AcceptVersion_hdr :: string where "AcceptVersion_hdr \<equiv> ''accept-version''"
abbreviation HeartBeat_hdr :: string where "HeartBeat_hdr \<equiv> ''heart-beat''"
abbreviation Subscription_hdr :: string where "Subscription_hdr \<equiv> ''subscription''"
abbreviation Id_hdr :: string where "Id_hdr \<equiv> ''id''"
abbreviation Host :: string where "Host \<equiv> ''host''"
abbreviation Login :: string where "Login \<equiv> ''login''"
abbreviation Passcode :: string where "Passcode \<equiv> ''passcode''"
abbreviation Destination :: string where "Destination \<equiv> ''destination''"
abbreviation Receipt :: string where "Receipt \<equiv> ''receipt''"
abbreviation ReceiptId :: string where "ReceiptId \<equiv> ''receipt-id''"
abbreviation Transaction :: string where "Transaction \<equiv> ''transaction''"
abbreviation MessageId :: string where "MessageId \<equiv> ''message-id''"
abbreviation Ack :: string where "Ack \<equiv> ''ack''"
abbreviation Message :: string where "Message \<equiv> ''message''"
abbreviation Version :: string where "Version \<equiv> ''version''"
abbreviation Server :: string where "Server \<equiv> ''server''"

type_synonym StompVersion = string

abbreviation V1_0 :: StompVersion where "V1_0 \<equiv> ''1.0''"
abbreviation V1_1 :: StompVersion where "V1_1 \<equiv> ''1.1''"
abbreviation V1_2 :: StompVersion where "V1_2 \<equiv> ''1.2''"

abbreviation AckAuto :: string where "AckAuto \<equiv> ''auto''"

abbreviation MaxContentLength :: nat where "MaxContentLength \<equiv> 16 * 1024 * 1024"

subsection \<open>Errors\<close>

text \<open>
  Go errors are values. The two \<^verbatim>\<open>strconv\<close> failures are kept apart from the errors of
  the repository; \<^verbatim>\<open>missingHeader(name)\<close> of package \<^verbatim>\<open>message\<close> carries the header name,
  the variable \<^verbatim>\<open>missingHeader\<close> of package \<^verbatim>\<open>client\<close> does not. A transaction-store
  error and a failed socket write are errors of the collaborators.
\<close>

datatype error =
    invalidCommand
  | unknownCommand
  | unexpectedCommand
  | notConnected
  | notConnectFrame
  | missingHeader string
  | client_missingHeader
  | unknownVersion
  | invalidHeartBeat
  | exceededMaxFrameSize
  | receiptInConnect
  | authenticationFailed
  | invalidOperationForFrame
  | ErrSyntax
  | ErrRange
  | txAlreadyInProgress
  | txUnknown
  | writeFailed

subsection \<open>Header collection\<close>

text \<open>
  Modelled from the spec: the type \<^verbatim>\<open>Headers\<close> and its methods are not among the
  sources. The spec has it as an ordered multimap by name: insertion order is kept, and
  when several values share a name the first is the one a lookup returns. \<^verbatim>\<open>Contains\<close>
  returns the value and whether it was found (the empty string when it was not, Go's zero
  value); \<^verbatim>\<open>Append\<close> adds at the end; \<^verbatim>\<open>Set\<close> replaces the value of the first entry of
  that name, or appends; \<^verbatim>\<open>Remove\<close> strips the header, that is every entry of that name.
\<close>

fun Contains :: "Headers \<Rightarrow> string \<Rightarrow> string \<times> bool" where
  "Contains [] name = ('''', False)"
| "Contains ((k, v) # hs) name = (if k = name then (v, True) else Contains hs name)"

definition Append :: "Headers \<Rightarrow> string \<Rightarrow> string \<Rightarrow> Headers" where
  "Append hs name v = hs @ [(name, v)]"

fun Set_hdr :: "Headers \<Rightarrow> string \<Rightarrow> string \<Rightarrow> Headers" where
  "Set_hdr [] name v = [(name, v)]"
| "Set_hdr ((k, w) # hs) name v =
     (if k = name then (k, v) # hs else (k, w) # Set_hdr hs name v)"

definition Remove_hdr :: "Headers \<Rightarrow> string \<Rightarrow> Headers" where
  "Remove_hdr hs name = filter (\<lambda>kv. fst kv \<noteq> name) hs"

text \<open>
  \<^verbatim>\<open>NewFrame(command, headers...)\<close>: the variadic arguments are name, value, name,
  value, ...; every call in the sources passes an even number of them, so they are taken
  in pairs.
\<close>

fun NewFrame_loop :: "Frame \<Rightarrow> (string \<times> string) list \<Rightarrow> Frame" where
  "NewFrame_loop f [] = f"
| "NewFrame_loop f ((header, v) # rest) =
     NewFrame_loop (f\<lparr>Headers := Append (Headers f) header v\<rparr>) rest"

definition NewFrame :: "string \<Rightarrow> (string \<times> string) list \<Rightarrow> Frame" where
  "NewFrame command headers =
     NewFrame_loop \<lparr>Command = command, Headers = [], Body = []\<rparr> headers"

subsection \<open>Go's standard library: strconv, strings, sort\<close>

definition is_digit :: "char \<Rightarrow> bool" where
  "is_digit c = (of_char c \<ge> (48::nat) \<and> of_char c \<le> (57::nat))"

definition digit_val :: "char \<Rightarrow> nat" where
  "digit_val c = of_char c - 48"

text \<open>
  \<^verbatim>\<open>strconv.ParseUint(s, 10, bitSize)\<close>: the empty string and a character that is no
  decimal digit are syntax errors; a value that passes \<open>2 ^ bitSize - 1\<close> is a range error,
  reported at the digit where it happens. Below that bound the 64-bit accumulator cannot
  overflow, so it is a \<^typ>\<open>nat\<close>.
\<close>

fun ParseUint_loop :: "nat \<Rightarrow> nat \<Rightarrow> string \<Rightarrow> error + nat" where
  "ParseUint_loop maxVal n [] = Inr n"
| "ParseUint_loop maxVal n (d # s) =
     (if \<not> is_digit d then Inl ErrSyntax
      else let n1 = n * 10 + digit_val d
           in if n1 > maxVal then Inl ErrRange else ParseUint_loop maxVal n1 s)"

definition ParseUint :: "string \<Rightarrow> nat \<Rightarrow> error + nat" where
  "ParseUint s bitSize = (if s = [] then Inl ErrSyntax else ParseUint_loop (2 ^ bitSize - 1) 0 s)"

text \<open>\<^verbatim>\<open>strconv.FormatUint(n, 10)\<close> and the verb \<^verbatim>\<open>%d\<close> of \<^verbatim>\<open>fmt.Sprintf\<close>.\<close>

definition digit_char :: "nat \<Rightarrow> char" where
  "digit_char d = ''0123456789'' ! d"

fun FormatUint :: "nat \<Rightarrow> string" where
  "FormatUint n = (if n < 10 then [digit_char n] else FormatUint (n div 10) @ [digit_char (n mod 10)])"

declare FormatUint.simps [simp del]

definition Sprintf_d :: "int \<Rightarrow> string" where
  "Sprintf_d i = (if i < 0 then CHR ''-'' # FormatUint (nat (- i)) else FormatUint (nat i))"

text \<open>
  \<^verbatim>\<open>strings.Split(s, sep)\<close> for a one-byte separator: the pieces between the separators,
  one piece more than there are separators (the empty string gives one empty piece).
\<close>

fun Split :: "string \<Rightarrow> char \<Rightarrow> string list" where
  "Split [] sep = [[]]"
| "Split (x # xs) sep =
     (if x = sep then [] # Split xs sep
      else (x # hd (Split xs sep)) # tl (Split xs sep))"

text \<open>
  \<^verbatim>\<open>sort.Strings\<close> sorts ascending in Go's string order, which compares bytes: the order
  of \<^typ>\<open>string\<close> here. Equal strings cannot be told apart, so every sorting algorithm
  gives the list that \<^const>\<open>sort\<close> gives.
\<close>

definition sort_Strings :: "string list \<Rightarrow> string list" where
  "sort_Strings xs = sort xs"

subsection \<open>ContentLength\<close>

text \<open>
  The named results \<^verbatim>\<open>(contentLength int, ok bool, err error)\<close> as a triple; \<^verbatim>\<open>nil\<close> is
  \<^const>\<open>None\<close>. A bare \<^verbatim>\<open>return\<close> returns the current values of the named results.
\<close>

definition ContentLength :: "Frame \<Rightarrow> int \<times> bool \<times> error option" where
  "ContentLength f =
     (case Contains (Headers f) ContentLength_hdr of
        (text, ok) \<Rightarrow>
          if \<not> ok then (0, ok, None)
          else (case ParseUint text 32 of
                  Inl err \<Rightarrow> (0, False, Some err)
                | Inr v \<Rightarrow>
                    if v > MaxContentLength then (0, False, Some exceededMaxFrameSize)
                    else (int v, ok, None)))"

subsection \<open>AcceptVersion\<close>

text \<open>The body of the \<^verbatim>\<open>range\<close> loop: a recognised entry overwrites version and error.\<close>

definition AcceptVersion_step ::
    "StompVersion \<times> error option \<Rightarrow> string \<Rightarrow> StompVersion \<times> error option" where
  "AcceptVersion_step acc v =
     (if v = V1_0 then (V1_0, None)
      else if v = V1_1 then (V1_1, None)
      else if v = V1_2 then (V1_2, None)
      else acc)"

fun AcceptVersion_loop ::
    "StompVersion \<times> error option \<Rightarrow> string list \<Rightarrow> StompVersion \<times> error option" where
  "AcceptVersion_loop acc [] = acc"
| "AcceptVersion_loop acc (v # versions) = AcceptVersion_loop (AcceptVersion_step acc v) versions"

definition AcceptVersion :: "Frame \<Rightarrow> StompVersion \<times> error option" where
  "AcceptVersion f =
     (let isConnect = (Command f = CONNECT) in
      if \<not> isConnect \<and> Command f \<noteq> STOMP then ('''', Some notConnectFrame)
      else (case Contains (Headers f) AcceptVersion_hdr of
              (acceptVersion, ok) \<Rightarrow>
                if ok then AcceptVersion_loop ('''', Some unknownVersion)
                             (sort_Strings (Split acceptVersion CHR '',''))
                else if isConnect then (V1_0, None)
                else ('''', Some (missingHeader AcceptVersion_hdr))))"

subsection \<open>HeartBeat\<close>

text \<open>
  \<^verbatim>\<open>heartBeatRegexp\<close> is \<^verbatim>\<open>^[0-9]{1,9},[0-9]{1,9}$\<close>: one to nine digits, a comma, one to
  nine digits, and nothing else (without the multi-line flag \<^verbatim>\<open>$\<close> is the end of the
  text). The longest prefix of digits is what the first group must match, since a comma
  has to follow it.
\<close>

definition heartBeatRegexp_MatchString :: "string \<Rightarrow> bool" where
  "heartBeatRegexp_MatchString s =
     (let a = takeWhile is_digit s; r = dropWhile is_digit s
      in 1 \<le> length a \<and> length a \<le> 9 \<and>
         (case r of
            [] \<Rightarrow> False
          | c # b \<Rightarrow> c = CHR '','' \<and> 1 \<le> length b \<and> length b \<le> 9 \<and> list_all is_digit b))"

text \<open>
  \<^verbatim>\<open>value, _ := strconv.ParseUint(...)\<close> drops the error: on a syntax error the value is 0, on
  a range error it is the greatest value.
\<close>

definition ParseUint_value :: "string \<Rightarrow> nat \<Rightarrow> nat" where
  "ParseUint_value s bitSize =
     (case ParseUint s bitSize of
        Inr v \<Rightarrow> v
      | Inl err \<Rightarrow> if err = ErrRange then 2 ^ bitSize - 1 else 0)"

definition HeartBeat :: "Frame \<Rightarrow> int \<times> int \<times> error option" where
  "HeartBeat f =
     (if Command f \<noteq> CONNECT \<and> Command f \<noteq> STOMP \<and> Command f \<noteq> CONNECTED
      then (0, 0, Some invalidOperationForFrame)
      else (case Contains (Headers f) HeartBeat_hdr of
              (heartBeat, ok) \<Rightarrow>
                if ok then
                  (if \<not> heartBeatRegexp_MatchString heartBeat then (0, 0, Some invalidHeartBeat)
                   else let slice = Split heartBeat CHR '','';
                            value1 = ParseUint_value (slice ! 0) 32;
                            value2 = ParseUint_value (slice ! 1) 32
                        in (int value1, int value2, None))
                else (0, 0, None)))"

subsection \<open>Validate\<close>

fun verifyRequiredHeaders :: "Frame \<Rightarrow> string list \<Rightarrow> error option" where
  "verifyRequiredHeaders f [] = None"
| "verifyRequiredHeaders f (name # names) =
     (if \<not> snd (Contains (Headers f) name) then Some (missingHeader name)
      else verifyRequiredHeaders f names)"

definition validateConnect :: "Frame \<Rightarrow> error option" where
  "validateConnect f =
     (case AcceptVersion f of
        (version, Some err) \<Rightarrow> Some err
      | (version, None) \<Rightarrow>
          if version = V1_0 then None
          else (case verifyRequiredHeaders f [Host] of
                  Some err \<Rightarrow> Some err
                | None \<Rightarrow>
                    (case Contains (Headers f) HeartBeat_hdr of
                       (heartBeat, ok) \<Rightarrow>
                         if ok \<and> \<not> heartBeatRegexp_MatchString heartBeat
                         then Some invalidHeartBeat else None)))"

definition Validate :: "Frame \<Rightarrow> error option" where
  "Validate f =
     (if Command f = CONNECT \<or> Command f = STOMP then validateConnect f
      else if Command f = CONNECTED then None
      else if Command f = SEND then verifyRequiredHeaders f [Destination]
      else if Command f = SUBSCRIBE then verifyRequiredHeaders f [Destination, Id_hdr]
      else if Command f = UNSUBSCRIBE then verifyRequiredHeaders f [Id_hdr]
      else if Command f = ACK then verifyRequiredHeaders f [Id_hdr]
      else if Command f = NACK then verifyRequiredHeaders f [Id_hdr]
      else if Command f = BEGIN then verifyRequiredHeaders f [Transaction]
      else if Command f = COMMIT then verifyRequiredHeaders f [Transaction]
      else if Command f = ABORT then verifyRequiredHeaders f [Transaction]
      else if Command f = DISCONNECT then None
      else if Command f = MESSAGE
        then verifyRequiredHeaders f [Destination, MessageId, Subscription_hdr]
      else if Command f = RECEIPT then verifyRequiredHeaders f [ReceiptId]
      else if Command f = ERROR then None
      else Some invalidCommand)"

subsection \<open>Notions the statements use\<close>

text \<open>
  The versions the \<^verbatim>\<open>switch\<close> of \<^verbatim>\<open>AcceptVersion\<close> knows, and the number a string of
  decimal digits denotes.
\<close>

definition recognised :: "string \<Rightarrow> bool" where
  "recognised v = (v = V1_0 \<or> v = V1_1 \<or> v = V1_2)"

definition dec_value :: "string \<Rightarrow> nat" where
  "dec_value s = foldl (\<lambda>n d. n * 10 + digit_val d) 0 s"

section \<open>Package client: the subscription list\<close>

text \<open>
  Subscriptions and subscription lists are heap objects that the code shares through
  pointers: a subscription points back to the list that holds it, and a list holds
  pointers to subscriptions. The heap is explicit: an address is a number, \<^verbatim>\<open>nil\<close> is
  \<^const>\<open>None\<close>, and a pointer that is not \<^verbatim>\<open>nil\<close> always points to an object.
\<close>

type_synonym sub_ptr = nat
type_synonym list_ptr = nat

text \<open>
  Modelled from the spec: the struct \<^verbatim>\<open>Subscription\<close> is declared in a file that is not
  among the sources. The spec gives it an id, a destination, an ack mode and the frame
  it holds; \<^verbatim>\<open>subscription_list.go\<close> and \<^verbatim>\<open>conn.go\<close> use the fields \<^verbatim>\<open>id\<close>, \<^verbatim>\<open>ack\<close>,
  \<^verbatim>\<open>frame\<close> and the back-pointer \<^verbatim>\<open>subList\<close>. The fields carry the prefix \<open>sub_\<close>.
\<close>

record Subscription =
  sub_id :: string
  sub_destination :: string
  sub_ack :: string
  sub_frame :: "Frame option"
  sub_subList :: "list_ptr option"

text \<open>
  A \<^verbatim>\<open>SubscriptionList\<close> holds a \<^verbatim>\<open>container/list\<close>; \<open>lists h sl\<close> is the sequence of
  its elements, front first.
\<close>

record heap =
  subscriptions :: "sub_ptr \<Rightarrow> Subscription"
  lists :: "list_ptr \<Rightarrow> sub_ptr list"

datatype panic = nil_dereference | already_in_a_subscription_list

definition set_subList :: "heap \<Rightarrow> sub_ptr \<Rightarrow> list_ptr option \<Rightarrow> heap" where
  "set_subList h sub v =
     h\<lparr>subscriptions := (subscriptions h)(sub := (subscriptions h sub)\<lparr>sub_subList := v\<rparr>)\<rparr>"

definition Add :: "heap \<Rightarrow> list_ptr \<Rightarrow> sub_ptr \<Rightarrow> panic + heap" where
  "Add h sl sub =
     (if sub_subList (subscriptions h sub) \<noteq> None then Inl already_in_a_subscription_list
      else Inr (set_subList (h\<lparr>lists := (lists h)(sl := lists h sl @ [sub])\<rparr>) sub (Some sl)))"

definition Get :: "heap \<Rightarrow> list_ptr \<Rightarrow> heap \<times> sub_ptr option" where
  "Get h sl =
     (case lists h sl of
        [] \<Rightarrow> (h, None)
      | sub # rest \<Rightarrow> (set_subList (h\<lparr>lists := (lists h)(sl := rest)\<rparr>) sub None, Some sub))"

text \<open>
  The two loops walk from the front and stop at the first element that matches; removing
  that element is removing the first occurrence of its pointer.
\<close>

definition Remove :: "heap \<Rightarrow> list_ptr \<Rightarrow> sub_ptr \<Rightarrow> heap" where
  "Remove h sl s =
     (case find (\<lambda>e. e = s) (lists h sl) of
        None \<Rightarrow> h
      | Some e \<Rightarrow> set_subList (h\<lparr>lists := (lists h)(sl := remove1 e (lists h sl))\<rparr>) s None)"

definition FindByIdAndRemove :: "heap \<Rightarrow> list_ptr \<Rightarrow> string \<Rightarrow> heap \<times> sub_ptr option" where
  "FindByIdAndRemove h sl ident =
     (case find (\<lambda>e. sub_id (subscriptions h e) = ident) (lists h sl) of
        None \<Rightarrow> (h, None)
      | Some sub \<Rightarrow> (h\<lparr>lists := (lists h)(sl := remove1 sub (lists h sl))\<rparr>, Some sub))"

section \<open>Package client: the connection\<close>

subsection \<open>State\<close>

text \<open>
  Modelled from the spec: \<^verbatim>\<open>Config\<close> is an interface that is not among the sources, and
  neither is the helper \<^verbatim>\<open>asMilliseconds\<close> nor the constant \<^verbatim>\<open>message.MaxHeartBeat\<close>. The
  spec has the yes/no contract \<^verbatim>\<open>Authenticate(login, passcode)\<close> and the server's minimum
  heart-beat in milliseconds; \<open>HeartBeat_min\<close> is the value of
  \<^verbatim>\<open>asMilliseconds(c.config.HeartBeat(), message.MaxHeartBeat)\<close>.
\<close>

record Config =
  Authenticate :: "string \<Rightarrow> string \<Rightarrow> bool"
  HeartBeat_min :: int

datatype Op = EnqueueOp | SubscribeOp | UnsubscribeOp | RequeueOp | DisconnectedOp

text \<open>
  The struct \<^verbatim>\<open>Request\<close> as the literals of \<^verbatim>\<open>conn.go\<close> fill it: an operation, and a
  subscription, a frame or the connection. A field that a literal leaves out is \<^verbatim>\<open>nil\<close>.
\<close>

record Request =
  Op :: Op
  Sub :: "sub_ptr option"
  Frame :: "Frame option"
  Conn :: bool

definition Request_Sub :: "Op \<Rightarrow> sub_ptr \<Rightarrow> Request" where
  "Request_Sub opr sub = \<lparr>Op = opr, Sub = Some sub, Frame = None, Conn = False\<rparr>"

definition Request_Frame :: "Op \<Rightarrow> Frame option \<Rightarrow> Request" where
  "Request_Frame opr f = \<lparr>Op = opr, Sub = None, Frame = f, Conn = False\<rparr>"

definition Request_Conn :: "Op \<Rightarrow> Request" where
  "Request_Conn opr = \<lparr>Op = opr, Sub = None, Frame = None, Conn = True\<rparr>"

text \<open>
  What the connection does to the world, in the order it does it: a frame written to the
  client's socket (\<^const>\<open>None\<close> is a heart-beat, \<^verbatim>\<open>Write(nil)\<close>), a request sent to the upper
  layer on \<^verbatim>\<open>requestChannel\<close>, a frame appended to a transaction of the store.
\<close>

datatype event =
    Wrote "Frame option"
  | Sent Request
  | Stored string Frame

datatype stateFn = connecting_fn | connected_fn

text \<open>
  The struct \<^verbatim>\<open>Conn\<close>. The two outbound channels are queues (front first) of capacity
  \<^verbatim>\<open>maxPendingWrites\<close>; \<^verbatim>\<open>stateFunc\<close> holds one of the two state functions; a
  \<^verbatim>\<open>time.Duration\<close> is a signed 64-bit count of nanoseconds; \<^verbatim>\<open>lastMsgId\<close> is a
  \<^verbatim>\<open>uint64\<close>; the map \<^verbatim>\<open>subs\<close> is a list of its entries, in the order the \<^verbatim>\<open>range\<close> loop
  of \<^verbatim>\<open>cleanupConn\<close> happens to visit them. \<open>mem\<close> is the heap. The socket is what the codec
  and the network make of it: \<open>sock\<close> says for each of the next writes whether it
  succeeds (all do once the list is used up), \<open>rw_closed\<close> that \<^verbatim>\<open>rw.Close()\<close> was called.
  \<open>blocked\<close> says that the processing go-routine waits on its own full channel, which
  nothing empties. \<open>trace\<close> is the record of events. The field \<^verbatim>\<open>closed\<close> is never used.
\<close>

abbreviation maxPendingWrites :: nat where "maxPendingWrites \<equiv> 16"

text \<open>
  Modelled from the spec: the type \<^verbatim>\<open>txStore\<close> is not among the sources. The spec has it
  as a mapping from a transaction id to the ordered list of its frames.
\<close>

type_synonym txStore = "string \<Rightarrow> Frame list option"

record Conn =
  config :: Config
  writeChannel :: "Frame list"
  subChannel :: "sub_ptr list"
  stateFunc :: stateFn
  readTimeout :: int
  writeTimeout :: int
  version :: StompVersion
  txStore :: txStore
  lastMsgId :: "64 word"
  subList :: list_ptr
  subs :: "(string \<times> sub_ptr) list"
  mem :: heap
  sock :: "bool list"
  rw_closed :: bool
  blocked :: bool
  trace :: "event list"

definition emit :: "Conn \<Rightarrow> event \<Rightarrow> Conn" where
  "emit c e = c\<lparr>trace := trace c @ [e]\<rparr>"

text \<open>\<^verbatim>\<open>c.writer.Write(f)\<close>: the frame reaches the client, or the write fails.\<close>

definition Write :: "Conn \<Rightarrow> Frame option \<Rightarrow> Conn \<times> error option" where
  "Write c f =
     (case sock c of
        [] \<Rightarrow> (emit c (Wrote f), None)
      | ok # rest \<Rightarrow>
          if ok then (emit (c\<lparr>sock := rest\<rparr>) (Wrote f), None)
          else (c\<lparr>sock := rest\<rparr>, Some writeFailed))"

definition sendImmediately :: "Conn \<Rightarrow> Frame \<Rightarrow> Conn \<times> error option" where
  "sendImmediately c f = Write c (Some f)"

text \<open>
  \<^verbatim>\<open>c.Send(f)\<close> puts the frame on the write channel. When the channel is full the caller
  waits; when the caller is the processing go-routine itself, it waits for ever.
\<close>

definition Send :: "Conn \<Rightarrow> Frame \<Rightarrow> Conn" where
  "Send c f =
     (if length (writeChannel c) < maxPendingWrites
      then c\<lparr>writeChannel := writeChannel c @ [f]\<rparr>
      else c\<lparr>blocked := True\<rparr>)"

text \<open>
  Modelled from the spec: the texts of the errors are in files that are not among the
  sources; the spec says what two of them mention. An error is rendered by its name.
\<close>

fun Error :: "error \<Rightarrow> string" where
  "Error invalidCommand = ''invalid command''"
| "Error unknownCommand = ''unknown command''"
| "Error unexpectedCommand = ''unexpected command''"
| "Error notConnected = ''not connected''"
| "Error notConnectFrame = ''operation valid for STOMP and CONNECT frames only''"
| "Error (missingHeader name) = ''missing header: '' @ name"
| "Error client_missingHeader = ''missing header''"
| "Error unknownVersion = ''unknown version''"
| "Error invalidHeartBeat = ''invalid format for heart-beat''"
| "Error exceededMaxFrameSize = ''exceeded max frame size''"
| "Error receiptInConnect = ''receipt header prohibited in connect frame''"
| "Error authenticationFailed = ''authentication failed''"
| "Error invalidOperationForFrame = ''invalid operation for frame''"
| "Error ErrSyntax = ''invalid syntax''"
| "Error ErrRange = ''value out of range''"
| "Error txAlreadyInProgress = ''transaction already in progress''"
| "Error txUnknown = ''unknown transaction''"
| "Error writeFailed = ''write failed''"

definition sendErrorImmediately :: "Conn \<Rightarrow> error \<Rightarrow> Frame option \<Rightarrow> Conn" where
  "sendErrorImmediately c err f =
     (let errorFrame = NewFrame ERROR [(Message, Error err)];
          errorFrame' =
            (case f of
               None \<Rightarrow> errorFrame
             | Some f' \<Rightarrow>
                 (case Contains (Headers f') Receipt of
                    (receipt, ok) \<Rightarrow>
                      if ok then errorFrame\<lparr>Headers := Append (Headers errorFrame) ReceiptId receipt\<rparr>
                      else errorFrame))
      in fst (sendImmediately c errorFrame'))"

subsection \<open>The transaction store\<close>

text \<open>
  Modelled from the spec: the methods of \<^verbatim>\<open>txStore\<close> are not among the sources. In the
  spec's words: \<^verbatim>\<open>Begin(id)\<close> fails if the id already exists; \<^verbatim>\<open>Add(id, frame)\<close> fails if
  the id does not exist, and otherwise strips the \<^verbatim>\<open>transaction\<close> header from the frame
  and appends it; \<^verbatim>\<open>Commit(id, replay)\<close> removes the entry and invokes \<^verbatim>\<open>replay\<close> on each
  stored frame in insertion order, stopping at the first error; \<^verbatim>\<open>Abort(id)\<close> removes the
  entry and fails if there is none; \<^verbatim>\<open>Init()\<close> discards every transaction. The spec does
  not say what \<^verbatim>\<open>Commit\<close> does with an id that does not exist; it fails here, as
  \<^verbatim>\<open>Abort\<close> does. The callback of \<^verbatim>\<open>Commit\<close> works on the connection, so the connection
  is threaded through; it may not return (see \<open>call_stateFunc\<close>).
\<close>

abbreviation txStore_Init :: txStore where
  "txStore_Init \<equiv> (\<lambda>tx. None)"

definition txStore_Begin :: "Conn \<Rightarrow> string \<Rightarrow> Conn \<times> error option" where
  "txStore_Begin c tx =
     (case txStore c tx of
        Some frames \<Rightarrow> (c, Some txAlreadyInProgress)
      | None \<Rightarrow> (c\<lparr>txStore := (txStore c)(tx := Some [])\<rparr>, None))"

definition txStore_Add :: "Conn \<Rightarrow> string \<Rightarrow> Frame \<Rightarrow> Conn \<times> Frame \<times> error option" where
  "txStore_Add c tx f =
     (case txStore c tx of
        None \<Rightarrow> (c, f, Some txUnknown)
      | Some frames \<Rightarrow>
          (let f' = f\<lparr>Headers := Remove_hdr (Headers f) Transaction\<rparr>
           in (emit (c\<lparr>txStore := (txStore c)(tx := Some (frames @ [f']))\<rparr>) (Stored tx f'),
               f', None)))"

fun txStore_Commit_loop ::
    "(Conn \<Rightarrow> Frame \<Rightarrow> (Conn \<times> error option) option) \<Rightarrow> Conn \<Rightarrow> Frame list
       \<Rightarrow> (Conn \<times> error option) option" where
  "txStore_Commit_loop replay c [] = Some (c, None)"
| "txStore_Commit_loop replay c (f # frames) =
     (case replay c f of
        None \<Rightarrow> None
      | Some (c', Some err) \<Rightarrow> Some (c', Some err)
      | Some (c', None) \<Rightarrow> txStore_Commit_loop replay c' frames)"

definition txStore_Commit ::
    "(Conn \<Rightarrow> Frame \<Rightarrow> (Conn \<times> error option) option) \<Rightarrow> Conn \<Rightarrow> string
       \<Rightarrow> (Conn \<times> error option) option" where
  "txStore_Commit replay c tx =
     (case txStore c tx of
        None \<Rightarrow> Some (c, Some txUnknown)
      | Some frames \<Rightarrow> txStore_Commit_loop replay (c\<lparr>txStore := (txStore c)(tx := None)\<rparr>) frames)"

definition txStore_Abort :: "Conn \<Rightarrow> string \<Rightarrow> Conn \<times> error option" where
  "txStore_Abort c tx =
     (case txStore c tx of
        None \<Rightarrow> (c, Some txUnknown)
      | Some frames \<Rightarrow> (c\<lparr>txStore := (txStore c)(tx := None)\<rparr>, None))"

subsection \<open>CONNECT\<close>

text \<open>
  \<^verbatim>\<open>time.Duration(ms) * time.Millisecond\<close>: a product of signed 64-bit integers, which
  wraps around.
\<close>

definition Milliseconds :: "int \<Rightarrow> int" where
  "Milliseconds ms = sint (word_of_int (ms * 1000000) :: 64 word)"

text \<open>
  A handler works on the connection and on the frame it is given, both through pointers:
  it returns the connection, the frame where it changes it, and the error (\<^verbatim>\<open>nil\<close> is
  \<^const>\<open>None\<close>). The one-second sleep after a failed authentication has no effect on the
  state. The assignment \<^verbatim>\<open>c.version, err = f.AcceptVersion()\<close> stores the version also
  when there is an error.
\<close>

definition handleConnect :: "Conn \<Rightarrow> Frame \<Rightarrow> Conn \<times> error option" where
  "handleConnect c f =
     (if snd (Contains (Headers f) Receipt) then (c, Some receiptInConnect)
      else
        let login = fst (Contains (Headers f) Login);
            passcode = fst (Contains (Headers f) Passcode)
        in if \<not> Authenticate (config c) login passcode then (c, Some authenticationFailed)
           else
             (case AcceptVersion f of
                (v, err) \<Rightarrow>
                  let c1 = c\<lparr>version := v\<rparr> in
                  (case err of
                     Some e \<Rightarrow> (c1, Some e)
                   | None \<Rightarrow>
                       (case HeartBeat f of
                          (cx, cy, Some e) \<Rightarrow> (c1, Some e)
                        | (cx, cy, None) \<Rightarrow>
                            let min = HeartBeat_min (config c1);
                                cx' = (if cx > 0 \<and> cx < min then min else cx);
                                cy' = (if cy > 0 \<and> cy < min then min else cy);
                                c2 = c1\<lparr>readTimeout := Milliseconds cx',
                                        writeTimeout := Milliseconds cy'\<rparr>;
                                response = NewFrame CONNECTED
                                  [(Version, version c2),
                                   (Server, ''stompd/x.y.z''),
                                   (HeartBeat_hdr, Sprintf_d cy' @ '','' @ Sprintf_d cx')];
                                c3 = Send c2 response
                            in (c3\<lparr>stateFunc := connected_fn\<rparr>, None)))))"

definition connecting :: "Conn \<Rightarrow> Frame \<Rightarrow> Conn \<times> Frame \<times> error option" where
  "connecting c f =
     (if Command f = CONNECT \<or> Command f = STOMP
      then (case handleConnect c f of (c', err) \<Rightarrow> (c', f, err))
      else (c, f, Some notConnected))"

subsection \<open>Receipts and the handlers of the connected state\<close>

definition sendReceiptImmediately :: "Conn \<Rightarrow> Frame \<Rightarrow> Conn \<times> Frame \<times> error option" where
  "sendReceiptImmediately c f =
     (case Contains (Headers f) Receipt of
        (receipt, ok) \<Rightarrow>
          if ok then
            (let f' = f\<lparr>Headers := Remove_hdr (Headers f) Receipt\<rparr>
             in case sendImmediately c (NewFrame RECEIPT [(ReceiptId, receipt)]) of
                  (c', err) \<Rightarrow> (c', f', err))
          else (c, f, None))"

definition handleDisconnect :: "Conn \<Rightarrow> Frame \<Rightarrow> Conn \<times> Frame \<times> error option" where
  "handleDisconnect c f =
     (case sendReceiptImmediately c f of (c', f', err) \<Rightarrow> (c', f', None))"

definition handleBegin :: "Conn \<Rightarrow> Frame \<Rightarrow> Conn \<times> Frame \<times> error option" where
  "handleBegin c f =
     (case Contains (Headers f) Transaction of
        (transaction, ok) \<Rightarrow>
          if ok then
            (case sendReceiptImmediately c f of
               (c', f', Some err) \<Rightarrow> (c', f', Some err)
             | (c', f', None) \<Rightarrow>
                 (case txStore_Begin c' transaction of (c'', err) \<Rightarrow> (c'', f', err)))
          else (c, f, Some client_missingHeader))"

text \<open>
  The callback that \<^verbatim>\<open>handleCommit\<close> gives to \<^verbatim>\<open>Commit\<close> calls \<^verbatim>\<open>c.stateFunc(c, f)\<close>; it
  is the parameter \<open>stateFunc_call\<close> here.
\<close>

definition handleCommit ::
    "(Conn \<Rightarrow> Frame \<Rightarrow> (Conn \<times> error option) option) \<Rightarrow> Conn \<Rightarrow> Frame
       \<Rightarrow> (Conn \<times> Frame \<times> error option) option" where
  "handleCommit stateFunc_call c f =
     (case Contains (Headers f) Transaction of
        (transaction, ok) \<Rightarrow>
          if ok then
            (case sendReceiptImmediately c f of
               (c', f', Some err) \<Rightarrow> Some (c', f', Some err)
             | (c', f', None) \<Rightarrow>
                 (case txStore_Commit stateFunc_call c' transaction of
                    None \<Rightarrow> None
                  | Some (c'', err) \<Rightarrow> Some (c'', f', err)))
          else Some (c, f, Some client_missingHeader))"

definition handleAbort :: "Conn \<Rightarrow> Frame \<Rightarrow> Conn \<times> Frame \<times> error option" where
  "handleAbort c f =
     (case Contains (Headers f) Transaction of
        (transaction, ok) \<Rightarrow>
          if ok then
            (case sendReceiptImmediately c f of
               (c', f', Some err) \<Rightarrow> (c', f', Some err)
             | (c', f', None) \<Rightarrow>
                 (case txStore_Abort c' transaction of (c'', err) \<Rightarrow> (c'', f', err)))
          else (c, f, Some client_missingHeader))"

definition handleSend :: "Conn \<Rightarrow> Frame \<Rightarrow> Conn \<times> Frame \<times> error option" where
  "handleSend c f =
     (case sendReceiptImmediately c f of
        (c', f', Some err) \<Rightarrow> (c', f', Some err)
      | (c', f', None) \<Rightarrow>
          (case Contains (Headers f') Transaction of
             (tx, ok) \<Rightarrow>
               if ok then txStore_Add c' tx f'
               else (emit c' (Sent (Request_Frame EnqueueOp (Some f'))), f', None)))"

definition sendFrameRequest :: "Conn \<Rightarrow> Frame \<Rightarrow> Conn \<times> Frame \<times> error option" where
  "sendFrameRequest c f =
     (case sendReceiptImmediately c f of
        (c', f', Some err) \<Rightarrow> (c', f', Some err)
      | (c', f', None) \<Rightarrow> (emit c' (Sent (Request_Frame EnqueueOp (Some f'))), f', None))"

definition handleSubscribe :: "Conn \<Rightarrow> Frame \<Rightarrow> Conn \<times> Frame \<times> error option" where
  "handleSubscribe c f = sendFrameRequest c f"

definition handleUnsubscribe :: "Conn \<Rightarrow> Frame \<Rightarrow> Conn \<times> Frame \<times> error option" where
  "handleUnsubscribe c f = sendFrameRequest c f"

definition handleAck :: "Conn \<Rightarrow> Frame \<Rightarrow> Conn \<times> Frame \<times> error option" where
  "handleAck c f = sendFrameRequest c f"

definition handleNack :: "Conn \<Rightarrow> Frame \<Rightarrow> Conn \<times> Frame \<times> error option" where
  "handleNack c f = sendFrameRequest c f"

definition connected ::
    "(Conn \<Rightarrow> Frame \<Rightarrow> (Conn \<times> error option) option) \<Rightarrow> Conn \<Rightarrow> Frame
       \<Rightarrow> (Conn \<times> Frame \<times> error option) option" where
  "connected stateFunc_call c f =
     (if Command f = CONNECT \<or> Command f = STOMP then Some (c, f, Some unexpectedCommand)
      else if Command f = DISCONNECT then Some (handleDisconnect c f)
      else if Command f = BEGIN then Some (handleBegin c f)
      else if Command f = ABORT then Some (handleAbort c f)
      else if Command f = COMMIT then handleCommit stateFunc_call c f
      else if Command f = SEND then Some (handleSend c f)
      else if Command f = SUBSCRIBE then Some (handleSubscribe c f)
      else if Command f = UNSUBSCRIBE then Some (handleUnsubscribe c f)
      else if Command f = ACK then Some (handleAck c f)
      else if Command f = NACK then Some (handleNack c f)
      else if Command f = MESSAGE \<or> Command f = RECEIPT \<or> Command f = ERROR
        then Some (c, f, Some unexpectedCommand)
      else Some (c, f, Some unknownCommand))"

text \<open>
  \<^verbatim>\<open>c.stateFunc(c, f)\<close>: the call through the function pointer. A commit calls it again
  for every frame of the transaction, and such a frame may be a commit in its turn, so
  the calls nest; the first argument bounds the nesting, and \<^const>\<open>None\<close> says that the
  bound was too small for the call to return.
\<close>

definition drop_frame :: "Conn \<times> Frame \<times> error option \<Rightarrow> Conn \<times> error option" where
  "drop_frame r = (fst r, snd (snd r))"

primrec call_stateFunc :: "nat \<Rightarrow> Conn \<Rightarrow> Frame \<Rightarrow> (Conn \<times> Frame \<times> error option) option" where
  "call_stateFunc 0 c f = None"
| "call_stateFunc (Suc n) c f =
     (case stateFunc c of
        connecting_fn \<Rightarrow> Some (connecting c f)
      | connected_fn \<Rightarrow>
          connected (\<lambda>c' f'. map_option drop_frame (call_stateFunc n c' f')) c f)"

text \<open>
  The commands of STOMP, as the spec lists them; they are the commands that \<^verbatim>\<open>Validate\<close>
  knows.
\<close>

definition STOMP_commands :: "string list" where
  "STOMP_commands =
     [CONNECT, STOMP, CONNECTED, SEND, SUBSCRIBE, UNSUBSCRIBE, ACK, NACK, BEGIN, COMMIT,
      ABORT, DISCONNECT, MESSAGE, RECEIPT, ERROR]"

text \<open>
  The server's minimum applied to one heart-beat value, in the spec's words: a value that
  is not zero becomes the greater of itself and the minimum, zero stays zero.
\<close>

definition clamp_up :: "int \<Rightarrow> int \<Rightarrow> int" where
  "clamp_up serverMin v = (if v > 0 then max v serverMin else 0)"

subsection \<open>Message ids\<close>

text \<open>
  \<^verbatim>\<open>allocateMessageId(f, sub)\<close> changes the connection and the frame that \<open>f\<close> points to and
  returns nothing; here it returns both. Reading \<^verbatim>\<open>sub.ack\<close> through a \<^verbatim>\<open>nil\<close> pointer is a
  run-time panic, which comes after the counter and the \<^verbatim>\<open>message-id\<close> header have been
  set: the third component says whether the call panicked. \<^verbatim>\<open>c.lastMsgId++\<close> is an
  addition of \<^verbatim>\<open>uint64\<close>, which wraps around.
\<close>

definition allocateMessageId ::
    "Conn \<Rightarrow> Frame \<Rightarrow> sub_ptr option \<Rightarrow> Conn \<times> Frame \<times> panic option" where
  "allocateMessageId c f sub =
     (if Command f = MESSAGE then
        (let c' = c\<lparr>lastMsgId := lastMsgId c + 1\<rparr>;
             messageId = FormatUint (unat (lastMsgId c'));
             f' = f\<lparr>Headers := Set_hdr (Headers f) MessageId messageId\<rparr>
         in case sub of
              None \<Rightarrow> (c', f', Some nil_dereference)
            | Some s \<Rightarrow>
                if sub_ack (subscriptions (mem c') s) = AckAuto
                then (c', f'\<lparr>Headers := Remove_hdr (Headers f') Ack\<rparr>, None)
                else (c', f'\<lparr>Headers := Set_hdr (Headers f') Ack messageId\<rparr>, None))
      else (c, f, None))"

subsection \<open>The branches of the processing loop\<close>

text \<open>
  One turn of the \<^verbatim>\<open>for\<close> loop of \<^verbatim>\<open>processLoop\<close> ends in one of three ways: the loop
  goes on, the function returns, or the go-routine panics.
\<close>

datatype outcome = Continue | Return | Panicked panic

text \<open>The branch \<^verbatim>\<open>case f, ok := <-c.writeChannel\<close>, for a frame \<open>f\<close> taken from the channel.\<close>

definition from_writeChannel :: "Conn \<Rightarrow> Frame \<Rightarrow> Conn \<times> outcome" where
  "from_writeChannel c f =
     (case allocateMessageId c f None of
        (c1, f1, Some p) \<Rightarrow> (c1, Panicked p)
      | (c1, f1, None) \<Rightarrow>
          (case Write c1 (Some f1) of
             (c2, Some err) \<Rightarrow> (c2, Return)
           | (c2, None) \<Rightarrow> if Command f1 = ERROR then (c2, Return) else (c2, Continue)))"

text \<open>
  The branch \<^verbatim>\<open>case f, ok := <-c.readChannel\<close>, for a frame \<open>f\<close> taken from the channel.
  The frame that \<^verbatim>\<open>sendErrorImmediately\<close> looks at is the frame as the handler left it.
  When the call of the state function does not return, neither does the branch.
\<close>

definition from_readChannel :: "nat \<Rightarrow> Conn \<Rightarrow> Frame \<Rightarrow> (Conn \<times> outcome) option" where
  "from_readChannel n c f =
     (case Validate f of
        Some err \<Rightarrow> Some (sendErrorImmediately c err (Some f), Return)
      | None \<Rightarrow>
          (case call_stateFunc n c f of
             None \<Rightarrow> None
           | Some (c', f', Some err) \<Rightarrow> Some (sendErrorImmediately c' err (Some f'), Return)
           | Some (c', f', None) \<Rightarrow> Some (c', Continue)))"

text \<open>
  The branch \<^verbatim>\<open>case sub, ok := <-c.subChannel\<close>, for a subscription \<open>sub\<close> taken from the
  channel. \<^verbatim>\<open>sub.frame\<close> is a pointer; when it is \<^verbatim>\<open>nil\<close>, reading its command panics.
\<close>

definition set_frame :: "heap \<Rightarrow> sub_ptr \<Rightarrow> Frame \<Rightarrow> heap" where
  "set_frame h sub f =
     h\<lparr>subscriptions := (subscriptions h)(sub := (subscriptions h sub)\<lparr>sub_frame := Some f\<rparr>)\<rparr>"

definition from_subChannel :: "Conn \<Rightarrow> sub_ptr \<Rightarrow> Conn \<times> outcome" where
  "from_subChannel c sub =
     (case sub_frame (subscriptions (mem c) sub) of
        None \<Rightarrow> (c, Panicked nil_dereference)
      | Some f \<Rightarrow>
          (case allocateMessageId c f (Some sub) of
             (c1, f1, Some p) \<Rightarrow> (c1, Panicked p)
           | (c1, f1, None) \<Rightarrow>
               (case Write (c1\<lparr>mem := set_frame (mem c1) sub f1\<rparr>) (Some f1) of
                  (c2, Some err) \<Rightarrow> (c2, Return)
                | (c2, None) \<Rightarrow>
                    if sub_ack (subscriptions (mem c2) sub) = AckAuto
                    then (emit c2 (Sent (Request_Sub SubscribeOp sub)), Continue)
                    else (case Add (mem c2) (subList c2) sub of
                            Inl p \<Rightarrow> (c2, Panicked p)
                          | Inr h \<Rightarrow> (c2\<lparr>mem := h\<rparr>, Continue)))))"

text \<open>The branch of the heart-beat timer.\<close>

definition from_timerChannel :: "Conn \<Rightarrow> Conn \<times> outcome" where
  "from_timerChannel c =
     (case Write c None of
        (c', Some err) \<Rightarrow> (c', Return)
      | (c', None) \<Rightarrow> (c', Continue))"

subsection \<open>Cleaning up\<close>

definition discardWriteChannelFrames :: "Conn \<Rightarrow> Conn" where
  "discardWriteChannelFrames c = c\<lparr>writeChannel := []\<rparr>"

text \<open>
  No code of the sources closes the subscription channel, so every receive of
  \<^verbatim>\<open>cleanupSubChannel\<close> gives a subscription or finds the channel empty.
\<close>

fun requeue_all :: "Conn \<Rightarrow> sub_ptr list \<Rightarrow> Conn" where
  "requeue_all c [] = c"
| "requeue_all c (sub # rest) =
     requeue_all (emit c (Sent (Request_Frame RequeueOp (sub_frame (subscriptions (mem c) sub))))) rest"

definition cleanupSubChannel :: "Conn \<Rightarrow> Conn" where
  "cleanupSubChannel c = (requeue_all c (subChannel c))\<lparr>subChannel := []\<rparr>"

text \<open>The loop \<^verbatim>\<open>for _, sub := range c.subs\<close>.\<close>

fun unsubscribe_all :: "Conn \<Rightarrow> (string \<times> sub_ptr) list \<Rightarrow> Conn" where
  "unsubscribe_all c [] = c"
| "unsubscribe_all c ((k, sub) # rest) =
     unsubscribe_all (emit c (Sent (Request_Sub UnsubscribeOp sub))) rest"

text \<open>The loop \<^verbatim>\<open>for sub := c.subList.Get(); sub != nil; sub = c.subList.Get()\<close>.\<close>

function requeue_subList :: "Conn \<Rightarrow> Conn" where
  "requeue_subList c =
     (case Get (mem c) (subList c) of
        (h, None) \<Rightarrow> c\<lparr>mem := h\<rparr>
      | (h, Some sub) \<Rightarrow>
          requeue_subList
            (emit (c\<lparr>mem := h\<rparr>) (Sent (Request_Frame RequeueOp (sub_frame (subscriptions h sub))))))"
  by pat_completeness auto
termination
  by (relation "measure (\<lambda>c. length (lists (mem c) (subList c)))")
     (auto simp: Get_def emit_def set_subList_def split: list.splits)

declare requeue_subList.simps [simp del]

text \<open>
  \<^verbatim>\<open>cleanupConn\<close>. Between its two rounds of draining the upper layer, which has not yet
  seen the request \<^verbatim>\<open>DisconnectedOp\<close>, may still put subscriptions on the subscription
  channel: \<open>late\<close> are those.
\<close>

definition cleanupConn :: "Conn \<Rightarrow> sub_ptr list \<Rightarrow> Conn" where
  "cleanupConn c late =
     (let c1 = c\<lparr>txStore := txStore_Init\<rparr>;
          c2 = discardWriteChannelFrames c1;
          c3 = unsubscribe_all c2 (subs c2);
          c4 = c3\<lparr>subs := []\<rparr>;
          c5 = requeue_subList c4;
          c6 = cleanupSubChannel (discardWriteChannelFrames c5);
          c7 = emit c6 (Sent (Request_Conn DisconnectedOp));
          c8 = c7\<lparr>subChannel := subChannel c7 @ late\<rparr>;
          c9 = cleanupSubChannel (discardWriteChannelFrames c8)
      in c9\<lparr>rw_closed := True\<rparr>)"

subsection \<open>The processing loop\<close>

text \<open>
  What the \<^verbatim>\<open>select\<close> of \<^verbatim>\<open>processLoop\<close> receives, and what the other go-routines do
  meanwhile. The upper layer calls \<^verbatim>\<open>Send\<close> or puts a subscription on the subscription
  channel (it waits while the channel is full); the select takes the front of one of the
  two outbound channels, or a frame from the reader (\<^const>\<open>None\<close>: the reader has closed the
  channel), or the tick of the heart-beat timer, which exists only while
  \<^verbatim>\<open>c.writeTimeout > 0\<close>. A choice that is not possible in the state leaves it as it is.
\<close>

datatype input =
    Upper_Send Frame
  | Upper_Deliver sub_ptr
  | Select_writeChannel
  | Select_readChannel "Frame option"
  | Select_subChannel
  | Select_timer

definition turn :: "nat \<Rightarrow> Conn \<Rightarrow> input \<Rightarrow> (Conn \<times> outcome) option" where
  "turn n c i =
     (if blocked c then Some (c, Continue)
      else case i of
        Upper_Send f \<Rightarrow>
          Some (if length (writeChannel c) < maxPendingWrites
                then c\<lparr>writeChannel := writeChannel c @ [f]\<rparr> else c, Continue)
      | Upper_Deliver sub \<Rightarrow>
          Some (if length (subChannel c) < maxPendingWrites
                then c\<lparr>subChannel := subChannel c @ [sub]\<rparr> else c, Continue)
      | Select_writeChannel \<Rightarrow>
          (case writeChannel c of
             [] \<Rightarrow> Some (c, Continue)
           | f # rest \<Rightarrow> Some (from_writeChannel (c\<lparr>writeChannel := rest\<rparr>) f))
      | Select_readChannel None \<Rightarrow> Some (c, Return)
      | Select_readChannel (Some f) \<Rightarrow> from_readChannel n c f
      | Select_subChannel \<Rightarrow>
          (case subChannel c of
             [] \<Rightarrow> Some (c, Continue)
           | sub # rest \<Rightarrow> Some (from_subChannel (c\<lparr>subChannel := rest\<rparr>) sub))
      | Select_timer \<Rightarrow>
          if writeTimeout c > 0 then Some (from_timerChannel c) else Some (c, Continue))"

text \<open>
  \<^verbatim>\<open>processLoop\<close> over a finite run of inputs. When the function returns or panics, the
  deferred \<^verbatim>\<open>cleanupConn\<close> runs and the rest of the inputs is not looked at (a panic
  then ends the program); a run that is used up
  leaves the loop waiting in its \<^verbatim>\<open>select\<close>, with the outcome \<^const>\<open>Continue\<close>.
\<close>

fun processLoop_from :: "nat \<Rightarrow> Conn \<Rightarrow> input list \<Rightarrow> (Conn \<times> outcome) option" where
  "processLoop_from n c [] = Some (c, Continue)"
| "processLoop_from n c (i # inputs) =
     (case turn n c i of
        None \<Rightarrow> None
      | Some (c', Continue) \<Rightarrow> processLoop_from n c' inputs
      | Some (c', Return) \<Rightarrow> Some (cleanupConn c' [], Return)
      | Some (c', Panicked p) \<Rightarrow> Some (cleanupConn c' [], Panicked p))"

text \<open>
  \<^verbatim>\<open>NewConn\<close> and the first two statements of \<^verbatim>\<open>processLoop\<close>: the connection as the loop
  first sees it. \<open>sl\<close> is the address of the list that \<^verbatim>\<open>NewSubscriptionList\<close> allocates.
\<close>

definition NewConn :: "Config \<Rightarrow> heap \<Rightarrow> list_ptr \<Rightarrow> bool list \<Rightarrow> Conn" where
  "NewConn cfg h sl net =
     \<lparr>config = cfg, writeChannel = [], subChannel = [], stateFunc = connecting_fn,
      readTimeout = 0, writeTimeout = 0, version = '''', txStore = txStore_Init,
      lastMsgId = 0, subList = sl, subs = [], mem = h\<lparr>lists := (lists h)(sl := [])\<rparr>,
      sock = net, rw_closed = False, blocked = False, trace = []\<rparr>"

definition processLoop :: "nat \<Rightarrow> Conn \<Rightarrow> input list \<Rightarrow> (Conn \<times> outcome) option" where
  "processLoop n c inputs = processLoop_from n (c\<lparr>stateFunc := connecting_fn\<rparr>) inputs"

subsection \<open>A concrete connection\<close>

text \<open>
  A heap of zero-valued subscriptions and empty lists, a configuration that accepts every
  login and asks for heart-beats of at least 800 ms, and the connection that \<^verbatim>\<open>NewConn\<close>
  makes of them, before and after a CONNECT.
\<close>

definition sub0 :: Subscription where
  "sub0 = \<lparr>sub_id = [], sub_destination = [], sub_ack = [], sub_frame = None, sub_subList = None\<rparr>"

definition heap0 :: heap where
  "heap0 = \<lparr>subscriptions = (\<lambda>p. sub0), lists = (\<lambda>l. [])\<rparr>"

definition config0 :: Config where
  "config0 = \<lparr>Authenticate = (\<lambda>login passcode. True), HeartBeat_min = 800\<rparr>"

definition conn0 :: Conn where
  "conn0 = NewConn config0 heap0 0 []"

definition conn1 :: Conn where
  "conn1 = conn0\<lparr>stateFunc := connected_fn, version := V1_2\<rparr>"

text \<open>
  The same heap with a subscription \<^verbatim>\<open>s1\<close> at address 1, in ack mode \<^verbatim>\<open>client\<close>, that
  holds a MESSAGE frame; and the connected connection on that heap.
\<close>

definition msg1 :: Frame where
  "msg1 = \<lparr>Command = MESSAGE,
            Headers = [(Destination, ''/q''), (Subscription_hdr, ''s1'')], Body = ''hi''\<rparr>"

definition heap1 :: heap where
  "heap1 = heap0\<lparr>subscriptions := (subscriptions heap0)
             (1 := sub0\<lparr>sub_id := ''s1'', sub_destination := ''/q'', sub_ack := ''client'',
                       sub_frame := Some msg1\<rparr>)\<rparr>"

definition conn2 :: Conn where
  "conn2 = conn1\<lparr>mem := heap1\<rparr>"

subsection \<open>Runs and what can be seen of them\<close>

text \<open>
  A run of the subscription branch of the loop: the deliveries are processed one after
  the other for as long as the loop goes on.
\<close>

fun deliveries :: "Conn \<Rightarrow> sub_ptr list \<Rightarrow> Conn \<times> outcome" where
  "deliveries c [] = (c, Continue)"
| "deliveries c (sub # rest) =
     (case from_subChannel c sub of
        (c', Continue) \<Rightarrow> deliveries c' rest
      | (c', Return) \<Rightarrow> (c', Return)
      | (c', Panicked p) \<Rightarrow> (c', Panicked p))"

text \<open>The frames written to the client and the requests sent to the upper layer, in order.\<close>

fun written :: "event list \<Rightarrow> Frame list" where
  "written [] = []"
| "written (Wrote (Some f) # es) = f # written es"
| "written (e # es) = written es"

fun requests :: "event list \<Rightarrow> Request list" where
  "requests [] = []"
| "requests (Sent r # es) = r # requests es"
| "requests (e # es) = requests es"

text \<open>
  The ack mode of a subscription is \<^verbatim>\<open>auto\<close>; the subscription holds a MESSAGE frame.
\<close>

definition auto_ack :: "Conn \<Rightarrow> sub_ptr \<Rightarrow> bool" where
  "auto_ack c sub = (sub_ack (subscriptions (mem c) sub) = AckAuto)"

definition holds_MESSAGE :: "Conn \<Rightarrow> sub_ptr \<Rightarrow> bool" where
  "holds_MESSAGE c sub =
     (case sub_frame (subscriptions (mem c) sub) of None \<Rightarrow> False | Some f \<Rightarrow> Command f = MESSAGE)"

text \<open>Whether the next write to the socket succeeds.\<close>

definition next_write_ok :: "bool list \<Rightarrow> bool" where
  "next_write_ok net = (case net of [] \<Rightarrow> True | ok # rest \<Rightarrow> ok)"

text \<open>The requests that the loops of \<^verbatim>\<open>cleanupConn\<close> send.\<close>

definition Unsubscribe_requests :: "(string \<times> sub_ptr) list \<Rightarrow> event list" where
  "Unsubscribe_requests entries = map (\<lambda>e. Sent (Request_Sub UnsubscribeOp (snd e))) entries"

definition Requeue_requests :: "heap \<Rightarrow> sub_ptr list \<Rightarrow> event list" where
  "Requeue_requests h ss =
     map (\<lambda>s. Sent (Request_Frame RequeueOp (sub_frame (subscriptions h s)))) ss"

text \<open>
  The connection of the example with the subscription \<^verbatim>\<open>s1\<close> in its map of subscriptions
  and in its list of subscriptions that await an acknowledgement.
\<close>

definition heap2 :: heap where
  "heap2 = set_subList (heap1\<lparr>lists := (lists heap1)(0 := [1])\<rparr>) 1 (Some 0)"

definition conn3 :: Conn where
  "conn3 = conn2\<lparr>subs := [(''s1'', 1)], mem := heap2\<rparr>"

subsection \<open>Receipts and the transaction store\<close>

text \<open>
  What the store holds in every state the connection reaches: SEND frames that have
  neither a \<^verbatim>\<open>transaction\<close> nor a \<^verbatim>\<open>receipt\<close> header.
\<close>

definition clean_frame :: "Frame \<Rightarrow> bool" where
  "clean_frame f =
     (Command f = SEND \<and> \<not> snd (Contains (Headers f) Transaction)
      \<and> \<not> snd (Contains (Headers f) Receipt))"

definition txStore_clean :: "Conn \<Rightarrow> bool" where
  "txStore_clean c = (\<forall>tx frames. txStore c tx = Some frames \<longrightarrow> list_all clean_frame frames)"

text \<open>The commands whose handlers answer a \<^verbatim>\<open>receipt\<close> header before anything else.\<close>

definition receipt_commands :: "string list" where
  "receipt_commands = [SEND, SUBSCRIBE, UNSUBSCRIBE, ACK, NACK, BEGIN, COMMIT, ABORT]"

text \<open>
  The RECEIPT frame for a receipt id, as an event; and what a handler's result must show
  when the frame it was given asked for a receipt: the frame it leaves has no
  \<^verbatim>\<open>receipt\<close> header, and the first event it added is the RECEIPT, or, when the write
  failed, it added no event and failed.
\<close>

definition RECEIPT_for :: "string \<Rightarrow> event" where
  "RECEIPT_for r = Wrote (Some (NewFrame RECEIPT [(ReceiptId, r)]))"

definition receipt_first :: "Conn \<Rightarrow> Frame \<Rightarrow> Conn \<times> Frame \<times> error option \<Rightarrow> bool" where
  "receipt_first c f res =
     (case res of (c', f', err) \<Rightarrow>
        \<not> snd (Contains (Headers f') Receipt) \<and>
        (snd (Contains (Headers f) Receipt) \<longrightarrow>
           (if next_write_ok (sock c)
            then \<exists>rest. trace c' = trace c @ RECEIPT_for (fst (Contains (Headers f) Receipt)) # rest
            else trace c' = trace c \<and> err = Some writeFailed)))"

text \<open>The connected connection of the example with an open transaction \<^verbatim>\<open>t1\<close>.\<close>

definition conn4 :: Conn where
  "conn4 = conn1\<lparr>txStore := (txStore conn1)(''t1'' := Some [])\<rparr>"

section \<open>Properties of package message\<close>

subsection \<open>Headers\<close>

lemma Contains_Set_hdr_same [simp]: "Contains (Set_hdr hs name v) name = (v, True)"
  by (induction hs name v rule: Set_hdr.induct) simp_all

lemma Contains_Set_hdr_other [simp]:
  "name' \<noteq> name \<Longrightarrow> Contains (Set_hdr hs name v) name' = Contains hs name'"
  by (induction hs name v rule: Set_hdr.induct) simp_all

lemma Contains_Remove_hdr_same [simp]: "Contains (Remove_hdr hs name) name = ([], False)"
  by (induction hs) (auto simp: Remove_hdr_def)

lemma Contains_Remove_hdr_other [simp]:
  "name' \<noteq> name \<Longrightarrow> Contains (Remove_hdr hs name) name' = Contains hs name'"
  by (induction hs) (auto simp: Remove_hdr_def)

subsection \<open>AcceptVersion\<close>

lemma AcceptVersion_step_eq:
  "AcceptVersion_step acc v = (if recognised v then (v, None) else acc)"
  by (simp add: AcceptVersion_step_def recognised_def)

lemma AcceptVersion_loop_eq:
  "AcceptVersion_loop acc xs =
     (if filter recognised xs = [] then acc else (last (filter recognised xs), None))"
  by (induction xs arbitrary: acc) (simp_all add: AcceptVersion_step_eq)

lemma sorted_last_Max:
  fixes xs :: "('a::linorder) list"
  shows "sorted xs \<Longrightarrow> xs \<noteq> [] \<Longrightarrow> last xs = Max (set xs)"
proof (induction xs)
  case Nil then show ?case by simp
next
  case (Cons x xs)
  show ?case
  proof (cases "xs = []")
    case True then show ?thesis by simp
  next
    case False
    with Cons have l: "last xs = Max (set xs)" by simp
    have "last xs \<in> set xs" using False by simp
    with Cons.prems have "x \<le> last xs" by simp
    with l show ?thesis using False by (simp add: max_def)
  qed
qed

lemma AcceptVersion_sorted:
  "AcceptVersion_loop acc (sort_Strings xs) =
     (if {v \<in> set xs. recognised v} = {} then acc
      else (Max {v \<in> set xs. recognised v}, None))"
proof -
  define ys where "ys = filter recognised (sort xs)"
  define R where "R = {v \<in> set xs. recognised v}"
  have s: "sorted ys" by (simp add: ys_def sorted_wrt_filter)
  have e: "set ys = R" by (auto simp: ys_def R_def)
  have l: "AcceptVersion_loop acc (sort_Strings xs) = (if ys = [] then acc else (last ys, None))"
    by (simp only: AcceptVersion_loop_eq sort_Strings_def ys_def)
  have n: "(ys = []) = (R = {})" using e set_empty [of ys] by simp
  have "ys \<noteq> [] \<Longrightarrow> last ys = Max R" using s e sorted_last_Max [of ys] by simp
  with l n show ?thesis unfolding R_def [symmetric] by auto
qed

text \<open>
  Claim C2. On a CONNECT or STOMP frame \<^verbatim>\<open>AcceptVersion\<close> returns the greatest, in the
  order of strings, of the recognised versions among the comma-separated entries of the
  \<^verbatim>\<open>accept-version\<close> header. Without the header it returns \<^verbatim>\<open>V1_0\<close> for CONNECT and
  fails with \<^verbatim>\<open>missingHeader(accept-version)\<close> for STOMP; with the header and no recognised
  entry it fails with \<^verbatim>\<open>unknownVersion\<close>; for any other command it fails with
  \<^verbatim>\<open>notConnectFrame\<close>.
\<close>

theorem AcceptVersion_greatest:
  "(Command f \<noteq> CONNECT \<and> Command f \<noteq> STOMP \<longrightarrow>
      AcceptVersion f = ([], Some notConnectFrame))
   \<and> (Command f = CONNECT \<and> \<not> snd (Contains (Headers f) AcceptVersion_hdr) \<longrightarrow>
      AcceptVersion f = (V1_0, None))
   \<and> (Command f = STOMP \<and> \<not> snd (Contains (Headers f) AcceptVersion_hdr) \<longrightarrow>
      AcceptVersion f = ([], Some (missingHeader AcceptVersion_hdr)))
   \<and> ((Command f = CONNECT \<or> Command f = STOMP)
        \<and> Contains (Headers f) AcceptVersion_hdr = (av, True) \<longrightarrow>
      (if {v \<in> set (Split av CHR '',''). recognised v} = {}
       then AcceptVersion f = ([], Some unknownVersion)
       else AcceptVersion f = (Max {v \<in> set (Split av CHR '',''). recognised v}, None)))"
  by (auto simp: AcceptVersion_def AcceptVersion_sorted Let_def split: prod.splits)

theorem AcceptVersion_greatest_witness:
  "Contains (Headers \<lparr>Command = CONNECT, Headers = [(Host, ''/''), (AcceptVersion_hdr, ''1.0,1.2,2.0'')], Body = []\<rparr>)
      AcceptVersion_hdr = (''1.0,1.2,2.0'', True)
   \<and> {v \<in> set (Split ''1.0,1.2,2.0'' CHR '',''). recognised v} = {V1_0, V1_2}
   \<and> AcceptVersion \<lparr>Command = CONNECT, Headers = [(Host, ''/''), (AcceptVersion_hdr, ''1.0,1.2,2.0'')], Body = []\<rparr>
       = (V1_2, None)"
proof -
  let ?f = "\<lparr>Command = CONNECT, Headers = [(Host, ''/''), (AcceptVersion_hdr, ''1.0,1.2,2.0'')], Body = []\<rparr>"
  have c: "Contains (Headers ?f) AcceptVersion_hdr = (''1.0,1.2,2.0'', True)" by simp
  have r: "{v \<in> set (Split ''1.0,1.2,2.0'' CHR '',''). recognised v} = {V1_0, V1_2}"
    by (auto simp: recognised_def)
  have m: "Max {V1_0, V1_2} = V1_2" by (simp add: less_eq_list_code max_def)
  note t = AcceptVersion_greatest [of ?f "''1.0,1.2,2.0''", THEN conjunct2, THEN conjunct2,
      THEN conjunct2, rule_format]
  have "if {v \<in> set (Split ''1.0,1.2,2.0'' CHR '',''). recognised v} = {}
        then AcceptVersion ?f = ([], Some unknownVersion)
        else AcceptVersion ?f =
          (Max {v \<in> set (Split ''1.0,1.2,2.0'' CHR '',''). recognised v}, None)"
    by (rule t) simp
  then have "AcceptVersion ?f = (Max {V1_0, V1_2}, None)"
    unfolding r by simp
  with m have a: "AcceptVersion ?f = (V1_2, None)" by simp
  from c r a show ?thesis by (intro conjI)
qed

subsection \<open>ContentLength\<close>

lemma foldl_dec_ge: "n \<le> foldl (\<lambda>n d. n * 10 + digit_val d) n s"
proof (induction s arbitrary: n)
  case Nil then show ?case by simp
next
  case (Cons d s)
  have "n \<le> n * 10 + digit_val d" by simp
  also have "\<dots> \<le> foldl (\<lambda>n d. n * 10 + digit_val d) (n * 10 + digit_val d) s"
    by (rule Cons.IH)
  finally show ?case by simp
qed

lemma ParseUint_loop_digits:
  "list_all is_digit s \<Longrightarrow> n \<le> maxVal \<Longrightarrow>
   ParseUint_loop maxVal n s =
     (if foldl (\<lambda>n d. n * 10 + digit_val d) n s \<le> maxVal
      then Inr (foldl (\<lambda>n d. n * 10 + digit_val d) n s) else Inl ErrRange)"
proof (induction s arbitrary: n)
  case Nil then show ?case by simp
next
  case (Cons d s)
  let ?n1 = "n * 10 + digit_val d"
  from Cons.prems have d: "is_digit d" and s: "list_all is_digit s" by simp_all
  show ?case
  proof (cases "?n1 > maxVal")
    case True
    with foldl_dec_ge [of ?n1 s] have "\<not> foldl (\<lambda>n d. n * 10 + digit_val d) ?n1 s \<le> maxVal"
      by linarith
    with True d show ?thesis by (simp add: Let_def)
  next
    case False
    with d Cons.IH [OF s, of ?n1] show ?thesis by (simp add: Let_def)
  qed
qed

lemma ParseUint_loop_nondigit:
  "\<not> list_all is_digit s \<Longrightarrow> ParseUint_loop maxVal n s = Inl ErrSyntax \<or> ParseUint_loop maxVal n s = Inl ErrRange"
  by (induction s arbitrary: n) (auto simp: Let_def)

lemma ParseUint_digits:
  "s \<noteq> [] \<Longrightarrow> list_all is_digit s \<Longrightarrow>
   ParseUint s 32 = (if dec_value s < 2 ^ 32 then Inr (dec_value s) else Inl ErrRange)"
  by (auto simp: ParseUint_def dec_value_def ParseUint_loop_digits)

lemma ParseUint_fails:
  "s = [] \<or> \<not> list_all is_digit s \<Longrightarrow> ParseUint s 32 = Inl ErrSyntax \<or> ParseUint s 32 = Inl ErrRange"
  using ParseUint_loop_nondigit [of s "2 ^ 32 - 1" 0] by (auto simp: ParseUint_def)

text \<open>
  Claim C9. When the \<^verbatim>\<open>content-length\<close> header is absent, \<^verbatim>\<open>ContentLength\<close> reports it as
  not found, without error. When it is present and its value is an unsigned decimal
  number that fits in 32 bits, a number greater than 16 MiB fails with
  \<^verbatim>\<open>exceededMaxFrameSize\<close> and a number up to 16 MiB, 16777216 itself included, is
  accepted and returned. Any other value (empty, not decimal, or too large for 32 bits)
  fails in the parser.
\<close>

theorem ContentLength_bounds:
  "(\<not> snd (Contains (Headers f) ContentLength_hdr) \<longrightarrow> ContentLength f = (0, False, None))
   \<and> (Contains (Headers f) ContentLength_hdr = (text, True) \<longrightarrow>
        (text \<noteq> [] \<and> list_all is_digit text \<and> dec_value text < 2 ^ 32 \<longrightarrow>
           (MaxContentLength < dec_value text \<longrightarrow>
              ContentLength f = (0, False, Some exceededMaxFrameSize))
         \<and> (dec_value text \<le> MaxContentLength \<longrightarrow>
              ContentLength f = (int (dec_value text), True, None)))
      \<and> (text = [] \<or> \<not> list_all is_digit text \<or> 2 ^ 32 \<le> dec_value text \<longrightarrow>
           ContentLength f = (0, False, Some ErrSyntax)
         \<or> ContentLength f = (0, False, Some ErrRange)))"
proof (intro conjI impI)
  assume "\<not> snd (Contains (Headers f) ContentLength_hdr)"
  then show "ContentLength f = (0, False, None)"
    by (cases "Contains (Headers f) ContentLength_hdr") (simp add: ContentLength_def)
next
  assume c: "Contains (Headers f) ContentLength_hdr = (text, True)"
    and t: "text \<noteq> [] \<and> list_all is_digit text \<and> dec_value text < 2 ^ 32"
  then have p: "ParseUint text 32 = Inr (dec_value text)" by (simp add: ParseUint_digits)
  { assume "MaxContentLength < dec_value text"
    with c p show "ContentLength f = (0, False, Some exceededMaxFrameSize)"
      by (simp add: ContentLength_def) }
  { assume "dec_value text \<le> MaxContentLength"
    with c p show "ContentLength f = (int (dec_value text), True, None)"
      by (simp add: ContentLength_def) }
next
  assume c: "Contains (Headers f) ContentLength_hdr = (text, True)"
    and t: "text = [] \<or> \<not> list_all is_digit text \<or> 2 ^ 32 \<le> dec_value text"
  have "ParseUint text 32 = Inl ErrSyntax \<or> ParseUint text 32 = Inl ErrRange"
  proof (cases "text = [] \<or> \<not> list_all is_digit text")
    case True then show ?thesis by (rule ParseUint_fails)
  next
    case False
    with t have "2 ^ 32 \<le> dec_value text" by simp
    with False show ?thesis by (simp add: ParseUint_digits)
  qed
  with c show "ContentLength f = (0, False, Some ErrSyntax) \<or> ContentLength f = (0, False, Some ErrRange)"
    by (auto simp: ContentLength_def)
qed

theorem ContentLength_bounds_witness:
  "Contains (Headers \<lparr>Command = SEND, Headers = [(Destination, ''/q''), (ContentLength_hdr, ''16777216'')], Body = []\<rparr>)
      ContentLength_hdr = (''16777216'', True)
   \<and> list_all is_digit ''16777216'' \<and> dec_value ''16777216'' = MaxContentLength
   \<and> ContentLength \<lparr>Command = SEND, Headers = [(Destination, ''/q''), (ContentLength_hdr, ''16777216'')], Body = []\<rparr>
       = (16777216, True, None)"
proof -
  let ?f = "\<lparr>Command = SEND, Headers = [(Destination, ''/q''), (ContentLength_hdr, ''16777216'')], Body = []\<rparr>"
  have c: "Contains (Headers ?f) ContentLength_hdr = (''16777216'', True)" by simp
  have d: "list_all is_digit ''16777216''" by (simp add: is_digit_def)
  have v: "dec_value ''16777216'' = MaxContentLength" by (simp add: dec_value_def digit_val_def)
  from ContentLength_bounds [of ?f "''16777216''"] c d v
  have "ContentLength ?f = (16777216, True, None)" by simp
  with c d v show ?thesis by simp
qed

section \<open>Properties of package client\<close>

subsection \<open>The state machine\<close>

text \<open>
  Claim C5, as the code has it. In the connecting state CONNECT and STOMP go to
  \<^verbatim>\<open>handleConnect\<close> and every other command yields \<^verbatim>\<open>notConnected\<close>. In the connected
  state CONNECT and STOMP yield \<^verbatim>\<open>unexpectedCommand\<close>, and so do MESSAGE, RECEIPT and
  ERROR; a command that has no case in the \<^verbatim>\<open>switch\<close>, which is a command outside the
  STOMP vocabulary or the command CONNECTED, yields \<^verbatim>\<open>unknownCommand\<close>; each of
  DISCONNECT, BEGIN, ABORT, COMMIT, SEND, SUBSCRIBE, UNSUBSCRIBE, ACK and NACK goes to its
  handler. A frame with a command outside the vocabulary is not valid, so the processing
  loop never dispatches it.
\<close>

theorem dispatch_by_state:
  "(stateFunc c = connecting_fn \<longrightarrow>
      (Command f = CONNECT \<or> Command f = STOMP \<longrightarrow>
         call_stateFunc (Suc n) c f = Some (fst (handleConnect c f), f, snd (handleConnect c f)))
    \<and> (Command f \<noteq> CONNECT \<and> Command f \<noteq> STOMP \<longrightarrow>
         call_stateFunc (Suc n) c f = Some (c, f, Some notConnected)))
   \<and> (stateFunc c = connected_fn \<longrightarrow>
      (Command f = CONNECT \<or> Command f = STOMP \<longrightarrow>
         call_stateFunc (Suc n) c f = Some (c, f, Some unexpectedCommand))
    \<and> (Command f = MESSAGE \<or> Command f = RECEIPT \<or> Command f = ERROR \<longrightarrow>
         call_stateFunc (Suc n) c f = Some (c, f, Some unexpectedCommand))
    \<and> (Command f \<notin> set STOMP_commands \<or> Command f = CONNECTED \<longrightarrow>
         call_stateFunc (Suc n) c f = Some (c, f, Some unknownCommand))
    \<and> (Command f = DISCONNECT \<longrightarrow> call_stateFunc (Suc n) c f = Some (handleDisconnect c f))
    \<and> (Command f = BEGIN \<longrightarrow> call_stateFunc (Suc n) c f = Some (handleBegin c f))
    \<and> (Command f = ABORT \<longrightarrow> call_stateFunc (Suc n) c f = Some (handleAbort c f))
    \<and> (Command f = COMMIT \<longrightarrow>
         call_stateFunc (Suc n) c f =
           handleCommit (\<lambda>c' f'. map_option drop_frame (call_stateFunc n c' f')) c f)
    \<and> (Command f = SEND \<longrightarrow> call_stateFunc (Suc n) c f = Some (handleSend c f))
    \<and> (Command f = SUBSCRIBE \<longrightarrow> call_stateFunc (Suc n) c f = Some (handleSubscribe c f))
    \<and> (Command f = UNSUBSCRIBE \<longrightarrow> call_stateFunc (Suc n) c f = Some (handleUnsubscribe c f))
    \<and> (Command f = ACK \<longrightarrow> call_stateFunc (Suc n) c f = Some (handleAck c f))
    \<and> (Command f = NACK \<longrightarrow> call_stateFunc (Suc n) c f = Some (handleNack c f)))
   \<and> (Command f \<notin> set STOMP_commands \<longrightarrow> Validate f = Some invalidCommand)"
proof -
  have a: "stateFunc c = connecting_fn \<Longrightarrow> call_stateFunc (Suc n) c f = Some (connecting c f)"
    by simp
  have b: "stateFunc c = connected_fn \<Longrightarrow>
      call_stateFunc (Suc n) c f =
        connected (\<lambda>c' f'. map_option drop_frame (call_stateFunc n c' f')) c f"
    by simp
  have v: "Command f \<notin> set STOMP_commands \<Longrightarrow> Validate f = Some invalidCommand"
    by (simp add: Validate_def STOMP_commands_def)
  have u: "Command f \<notin> set STOMP_commands \<or> Command f = CONNECTED \<Longrightarrow>
      connected sf c f = Some (c, f, Some unknownCommand)" for sf
    by (auto simp: connected_def STOMP_commands_def)
  show ?thesis
  proof (intro conjI impI)
    assume "Command f \<notin> set STOMP_commands" then show "Validate f = Some invalidCommand" by (rule v)
  next
    assume s: "stateFunc c = connected_fn"
      and "Command f \<notin> set STOMP_commands \<or> Command f = CONNECTED"
    then show "call_stateFunc (Suc n) c f = Some (c, f, Some unknownCommand)"
      using u b by simp
  qed (auto simp only: a b connecting_def connected_def split: prod.splits, simp_all)
qed

theorem dispatch_by_state_witness:
  "stateFunc conn1 = connected_fn
   \<and> Command \<lparr>Command = SEND, Headers = [(Destination, ''/q'')], Body = ''hi''\<rparr> = SEND
   \<and> call_stateFunc (Suc 0) conn1 \<lparr>Command = SEND, Headers = [(Destination, ''/q'')], Body = ''hi''\<rparr>
       = Some (handleSend conn1 \<lparr>Command = SEND, Headers = [(Destination, ''/q'')], Body = ''hi''\<rparr>)"
  using dispatch_by_state [of conn1 "\<lparr>Command = SEND, Headers = [(Destination, ''/q'')], Body = ''hi''\<rparr>" 0]
  by (simp add: conn1_def)

text \<open>
  A CONNECTED frame passes \<^verbatim>\<open>Validate\<close> and is a command of STOMP, yet in the connected
  state it is answered like an unknown command and no handler runs.
\<close>

theorem connected_CONNECTED_unknownCommand:
  "Validate \<lparr>Command = CONNECTED, Headers = [], Body = []\<rparr> = None
   \<and> CONNECTED \<in> set STOMP_commands
   \<and> stateFunc conn1 = connected_fn
   \<and> call_stateFunc (Suc 0) conn1 \<lparr>Command = CONNECTED, Headers = [], Body = []\<rparr>
       = Some (conn1, \<lparr>Command = CONNECTED, Headers = [], Body = []\<rparr>, Some unknownCommand)"
  by (simp add: Validate_def STOMP_commands_def conn1_def connected_def)

subsection \<open>CONNECT and the heart-beat\<close>

lemma Milliseconds_in_range:
  assumes "0 \<le> ms" and "ms * 1000000 < 2 ^ 63"
  shows "Milliseconds ms = ms * 1000000"
proof -
  have "sint (word_of_int (ms * 1000000) :: 64 word) = signed_take_bit 63 (ms * 1000000)"
    by (subst sint_sbintrunc') simp
  also have "\<dots> = ms * 1000000"
    by (rule signed_take_bit_int_eq_self) (use assms in auto)
  finally show ?thesis by (simp only: Milliseconds_def)
qed

lemma ParseUint_loop_le:
  "ParseUint_loop maxVal n s = Inr v \<Longrightarrow> n \<le> maxVal \<Longrightarrow> v \<le> maxVal"
  by (induction s arbitrary: n) (auto simp: Let_def split: if_splits)

lemma ParseUint_value_le: "ParseUint_value s 32 \<le> 4294967295"
proof (cases "ParseUint s 32")
  case (Inl e)
  then show ?thesis by (simp add: ParseUint_value_def)
next
  case (Inr v)
  then have "v \<le> 2 ^ 32 - 1"
    using ParseUint_loop_le [of "2 ^ 32 - 1" 0 s v] by (auto simp: ParseUint_def split: if_splits)
  with Inr show ?thesis by (simp add: ParseUint_value_def)
qed

lemma HeartBeat_range:
  assumes "HeartBeat f = (cx, cy, None)"
  shows "0 \<le> cx \<and> cx \<le> 4294967295 \<and> 0 \<le> cy \<and> cy \<le> 4294967295"
proof -
  have "0 \<le> int (ParseUint_value s 32) \<and> int (ParseUint_value s 32) \<le> 4294967295" for s
    using ParseUint_value_le [of s] by simp
  with assms show ?thesis
    by (auto simp: HeartBeat_def Let_def split: if_splits prod.splits)
qed

text \<open>
  Claim C3. For a CONNECT or STOMP frame without \<^verbatim>\<open>receipt\<close> header that authenticates,
  negotiates a version \<open>v\<close> and whose heart-beat parses as \<open>(cx, cy)\<close>, \<^verbatim>\<open>handleConnect\<close>
  stores the read interval \<open>max cx serverMin\<close> if \<open>cx > 0\<close> and 0 otherwise, and the write
  interval likewise from \<open>cy\<close> (as durations: milliseconds times \<open>10\<^sup>6\<close> nanoseconds), and
  puts on the write channel a CONNECTED frame with the headers \<^verbatim>\<open>version\<close>, \<^verbatim>\<open>server\<close> and
  \<^verbatim>\<open>heart-beat\<close>, the last being the two clamped values in decimal, the one from \<open>cy\<close>
  first. The header is there whatever the version is. The reply needs room on the write
  channel, and the server's minimum must be representable as a duration.
\<close>

theorem handleConnect_heart_beat:
  assumes rc: "\<not> snd (Contains (Headers f) Receipt)"
    and au: "Authenticate (config c) (fst (Contains (Headers f) Login))
               (fst (Contains (Headers f) Passcode))"
    and av: "AcceptVersion f = (v, None)"
    and hb: "HeartBeat f = (cx, cy, None)"
    and room: "length (writeChannel c) < maxPendingWrites"
    and small: "HeartBeat_min (config c) * 1000000 < 2 ^ 63"
  shows "handleConnect c f =
      (c\<lparr>version := v,
         readTimeout := clamp_up (HeartBeat_min (config c)) cx * 1000000,
         writeTimeout := clamp_up (HeartBeat_min (config c)) cy * 1000000,
         writeChannel := writeChannel c @
           [\<lparr>Command = CONNECTED,
             Headers = [(Version, v), (Server, ''stompd/x.y.z''),
                        (HeartBeat_hdr,
                         FormatUint (nat (clamp_up (HeartBeat_min (config c)) cy)) @ '','' @
                         FormatUint (nat (clamp_up (HeartBeat_min (config c)) cx)))],
             Body = []\<rparr>],
         stateFunc := connected_fn\<rparr>, None)"
proof -
  let ?m = "HeartBeat_min (config c)"
  from hb have r: "0 \<le> cx" "cx \<le> 4294967295" "0 \<le> cy" "cy \<le> 4294967295"
    using HeartBeat_range by blast+
  have cl: "(if 0 < w \<and> w < ?m then ?m else w) = clamp_up ?m w" if "0 \<le> w" for w
    using that by (auto simp: clamp_up_def max_def)
  have nn: "0 \<le> clamp_up ?m w" for w by (simp add: clamp_up_def max_def)
  have ms: "Milliseconds (clamp_up ?m w) = clamp_up ?m w * 1000000" if "0 \<le> w" "w \<le> 4294967295" for w
  proof (rule Milliseconds_in_range [OF nn])
    show "clamp_up ?m w * 1000000 < 2 ^ 63"
      using that small by (auto simp: clamp_up_def max_def)
  qed
  have sp: "Sprintf_d (clamp_up ?m w) = FormatUint (nat (clamp_up ?m w))" for w
    using nn [of w] by (simp add: Sprintf_d_def)
  show ?thesis
    using rc au av hb room
    by (simp add: handleConnect_def Let_def cl r ms sp Send_def NewFrame_def Append_def)
qed

lemma S1_AcceptVersion:
  "AcceptVersion \<lparr>Command = CONNECT,
      Headers = [(AcceptVersion_hdr, ''1.0,1.2''), (Host, ''/''), (HeartBeat_hdr, ''500,1000'')],
      Body = []\<rparr> = (V1_2, None)"
  by (simp add: AcceptVersion_def sort_Strings_def AcceptVersion_step_def less_eq_list_code)

lemma S1_HeartBeat:
  "HeartBeat \<lparr>Command = CONNECT,
      Headers = [(AcceptVersion_hdr, ''1.0,1.2''), (Host, ''/''), (HeartBeat_hdr, ''500,1000'')],
      Body = []\<rparr> = (500, 1000, None)"
  by (simp add: HeartBeat_def heartBeatRegexp_MatchString_def is_digit_def Let_def
      ParseUint_value_def ParseUint_def digit_val_def)

theorem handleConnect_heart_beat_witness:
  "handleConnect conn0
     \<lparr>Command = CONNECT,
      Headers = [(AcceptVersion_hdr, ''1.0,1.2''), (Host, ''/''), (HeartBeat_hdr, ''500,1000'')],
      Body = []\<rparr>
   = (conn0\<lparr>version := V1_2, readTimeout := 800000000, writeTimeout := 1000000000,
        writeChannel :=
          [\<lparr>Command = CONNECTED,
            Headers = [(Version, V1_2), (Server, ''stompd/x.y.z''), (HeartBeat_hdr, ''1000,800'')],
            Body = []\<rparr>],
        stateFunc := connected_fn\<rparr>, None)"
proof -
  let ?f = "\<lparr>Command = CONNECT,
      Headers = [(AcceptVersion_hdr, ''1.0,1.2''), (Host, ''/''), (HeartBeat_hdr, ''500,1000'')],
      Body = []\<rparr>"
  have c: "config conn0 = config0" "writeChannel conn0 = []"
    by (simp_all add: conn0_def NewConn_def)
  have h: "HeartBeat_min config0 = 800" "Authenticate config0 = (\<lambda>login passcode. True)"
    by (simp_all add: config0_def)
  have "handleConnect conn0 ?f =
      (conn0\<lparr>version := V1_2,
         readTimeout := clamp_up (HeartBeat_min (config conn0)) 500 * 1000000,
         writeTimeout := clamp_up (HeartBeat_min (config conn0)) 1000 * 1000000,
         writeChannel := writeChannel conn0 @
           [\<lparr>Command = CONNECTED,
             Headers = [(Version, V1_2), (Server, ''stompd/x.y.z''),
                        (HeartBeat_hdr,
                         FormatUint (nat (clamp_up (HeartBeat_min (config conn0)) 1000)) @ '','' @
                         FormatUint (nat (clamp_up (HeartBeat_min (config conn0)) 500)))],
             Body = []\<rparr>],
         stateFunc := connected_fn\<rparr>, None)"
    by (rule handleConnect_heart_beat [OF _ _ S1_AcceptVersion S1_HeartBeat])
       (simp_all add: c h)
  then show ?thesis
    by (simp add: c h clamp_up_def FormatUint.simps digit_char_def)
qed

text \<open>
  The reply goes over the write channel: when the loop takes it from there, it writes it
  to the client as it is.
\<close>

lemma CONNECTED_reply_is_written:
  assumes "Command f = CONNECTED" and "next_write_ok (sock c)"
  shows "snd (from_writeChannel c f) = Continue
     \<and> trace (fst (from_writeChannel c f)) = trace c @ [Wrote (Some f)]"
  using assms
  by (cases "sock c")
     (auto simp: from_writeChannel_def allocateMessageId_def Write_def emit_def next_write_ok_def)

subsection \<open>Frames from the write channel\<close>

text \<open>
  Claim C10 says that a frame from the write channel is processed without panic whatever
  its command is. The branch calls \<^verbatim>\<open>allocateMessageId(f, nil)\<close>, and for a MESSAGE frame
  that function reads \<^verbatim>\<open>sub.ack\<close>: a MESSAGE frame from the write channel makes the
  go-routine panic.
\<close>

theorem write_channel_MESSAGE_panics:
  "from_writeChannel conn1
     \<lparr>Command = MESSAGE, Headers = [(Destination, ''/topic/a''), (Subscription_hdr, ''s1'')],
      Body = ''hi''\<rparr>
   = (conn1\<lparr>lastMsgId := 1\<rparr>, Panicked nil_dereference)"
  by (simp add: from_writeChannel_def allocateMessageId_def Let_def conn1_def conn0_def
      NewConn_def)

subsection \<open>The back-pointer of a subscription\<close>

lemma Add_panics_iff:
  "(\<exists>p. Add h sl sub = Inl p) = (sub_subList (subscriptions h sub) \<noteq> None)"
  by (simp add: Add_def)

lemma Add_sets_back_pointer:
  "Add h sl sub = Inr h' \<Longrightarrow>
     sub_subList (subscriptions h' sub) = Some sl \<and> lists h' sl = lists h sl @ [sub]"
  by (auto simp: Add_def set_subList_def split: if_splits)

lemma Get_clears_back_pointer:
  "Get h sl = (h', Some sub) \<Longrightarrow>
     sub_subList (subscriptions h' sub) = None \<and> lists h sl = sub # lists h' sl"
  by (auto simp: Get_def set_subList_def split: list.splits)

lemma find_eq_member: "s \<in> set xs \<Longrightarrow> find (\<lambda>e. e = s) xs = Some s"
  by (induction xs) auto

lemma Remove_clears_back_pointer:
  "s \<in> set (lists h sl) \<Longrightarrow>
     sub_subList (subscriptions (Remove h sl s) s) = None
     \<and> lists (Remove h sl s) sl = remove1 s (lists h sl)"
  by (simp add: Remove_def set_subList_def find_eq_member)

lemma FindByIdAndRemove_leaves_back_pointer:
  "FindByIdAndRemove h sl ident = (h', Some sub) \<Longrightarrow>
     sub_subList (subscriptions h' sub) = sub_subList (subscriptions h sub)
     \<and> lists h' sl = remove1 sub (lists h sl)"
  by (auto simp: FindByIdAndRemove_def split: option.splits)

text \<open>
  Claim C8 says that every removal clears the back-pointer of the subscription it
  removes. \<^verbatim>\<open>Get\<close> and \<^verbatim>\<open>Remove\<close> do; \<^verbatim>\<open>FindByIdAndRemove\<close> takes the subscription out of
  the list and leaves its back-pointer set, so that adding it again panics.
\<close>

theorem FindByIdAndRemove_keeps_back_pointer:
  "\<exists>h1 h2. Add heap1 0 1 = Inr h1
     \<and> lists h1 0 = [1] \<and> sub_subList (subscriptions h1 1) = Some 0
     \<and> FindByIdAndRemove h1 0 ''s1'' = (h2, Some 1)
     \<and> lists h2 0 = [] \<and> sub_subList (subscriptions h2 1) = Some 0
     \<and> Add h2 0 1 = Inl already_in_a_subscription_list
     \<and> sub_subList (subscriptions (fst (Get h1 0)) 1) = None
     \<and> sub_subList (subscriptions (Remove h1 0 1) 1) = None"
  by (simp add: Add_def FindByIdAndRemove_def Get_def Remove_def set_subList_def heap1_def
      heap0_def sub0_def)

subsection \<open>DISCONNECT\<close>

text \<open>
  Claim C4 says that the session terminates once a DISCONNECT frame is handled and that
  nothing but the receipt is sent to the client afterwards. \<^verbatim>\<open>handleDisconnect\<close> returns
  \<^verbatim>\<open>nil\<close> and the loop goes on. Here a client connects, is sent the CONNECTED frame, and
  sends DISCONNECT with a receipt; a subscription delivery that follows is still written
  to the client, and the loop has not returned.
\<close>

theorem DISCONNECT_does_not_end_the_session:
  "map_option (\<lambda>r. (trace (fst r), snd r))
     (processLoop (Suc (Suc 0)) (NewConn config0 heap1 0 [])
        [Select_readChannel (Some \<lparr>Command = CONNECT,
            Headers = [(AcceptVersion_hdr, ''1.2''), (Host, ''/'')], Body = []\<rparr>),
         Select_writeChannel,
         Select_readChannel (Some \<lparr>Command = DISCONNECT, Headers = [(Receipt, ''r1'')], Body = []\<rparr>),
         Upper_Deliver 1,
         Select_subChannel])
   = Some ([Wrote (Some \<lparr>Command = CONNECTED,
                          Headers = [(Version, V1_2), (Server, ''stompd/x.y.z''),
                                     (HeartBeat_hdr, ''0,0'')],
                          Body = []\<rparr>),
            Wrote (Some \<lparr>Command = RECEIPT, Headers = [(ReceiptId, ''r1'')], Body = []\<rparr>),
            Wrote (Some \<lparr>Command = MESSAGE,
                          Headers = [(Destination, ''/q''), (Subscription_hdr, ''s1''),
                                     (MessageId, ''1''), (Ack, ''1'')],
                          Body = ''hi''\<rparr>)],
           Continue)"
  by (simp add: processLoop_def turn_def from_readChannel_def Validate_def validateConnect_def
      connecting_def handleConnect_def HeartBeat_def config0_def Milliseconds_def Send_def
      Sprintf_d_def
      AcceptVersion_def sort_Strings_def AcceptVersion_step_def
      NewConn_def heap1_def heap0_def sub0_def msg1_def
      from_writeChannel_def connected_def handleDisconnect_def
      sendReceiptImmediately_def sendImmediately_def Write_def emit_def NewFrame_def Append_def
      Remove_hdr_def from_subChannel_def allocateMessageId_def Let_def set_frame_def Add_def
      set_subList_def FormatUint.simps digit_char_def)

subsection \<open>Cleaning up\<close>

lemma unsubscribe_all_eq:
  "unsubscribe_all c xs = c\<lparr>trace := trace c @ Unsubscribe_requests xs\<rparr>"
  by (induction c xs rule: unsubscribe_all.induct) (simp_all add: emit_def Unsubscribe_requests_def)

lemma requeue_all_eq:
  "requeue_all c ss = c\<lparr>trace := trace c @ Requeue_requests (mem c) ss\<rparr>"
  by (induction c ss rule: requeue_all.induct) (simp_all add: emit_def Requeue_requests_def)

lemma sub_frame_set_subList [simp]:
  "sub_frame (subscriptions (set_subList h s v) p) = sub_frame (subscriptions h p)"
  by (simp add: set_subList_def)

lemma lists_set_subList [simp]: "lists (set_subList h s v) = lists h"
  by (simp add: set_subList_def)

lemma requeue_subList_props:
  "trace (requeue_subList c) = trace c @ Requeue_requests (mem c) (lists (mem c) (subList c))
   \<and> (\<forall>p. sub_frame (subscriptions (mem (requeue_subList c)) p) = sub_frame (subscriptions (mem c) p))
   \<and> lists (mem (requeue_subList c)) (subList (requeue_subList c)) = []
   \<and> subChannel (requeue_subList c) = subChannel c
   \<and> writeChannel (requeue_subList c) = writeChannel c
   \<and> subs (requeue_subList c) = subs c
   \<and> txStore (requeue_subList c) = txStore c
   \<and> rw_closed (requeue_subList c) = rw_closed c"
proof (induction c rule: requeue_subList.induct)
  case (1 c)
  show ?case
  proof (cases "lists (mem c) (subList c)")
    case Nil
    then show ?thesis
      by (subst requeue_subList.simps, subst (2) requeue_subList.simps)
         (simp add: Get_def Requeue_requests_def requeue_subList.simps [of c])
  next
    case (Cons s rest)
    let ?h = "set_subList ((mem c)\<lparr>lists := (lists (mem c))(subList c := rest)\<rparr>) s None"
    let ?c = "emit (c\<lparr>mem := ?h\<rparr>) (Sent (Request_Frame RequeueOp (sub_frame (subscriptions ?h s))))"
    have g: "Get (mem c) (subList c) = (?h, Some s)" using Cons by (simp add: Get_def)
    have r: "requeue_subList c = requeue_subList ?c"
      by (subst requeue_subList.simps) (simp add: g)
    have ih: "trace (requeue_subList ?c) = trace ?c @ Requeue_requests (mem ?c) (lists (mem ?c) (subList ?c))
   \<and> (\<forall>p. sub_frame (subscriptions (mem (requeue_subList ?c)) p) = sub_frame (subscriptions (mem ?c) p))
   \<and> lists (mem (requeue_subList ?c)) (subList (requeue_subList ?c)) = []
   \<and> subChannel (requeue_subList ?c) = subChannel ?c
   \<and> writeChannel (requeue_subList ?c) = writeChannel ?c
   \<and> subs (requeue_subList ?c) = subs ?c
   \<and> txStore (requeue_subList ?c) = txStore ?c
   \<and> rw_closed (requeue_subList ?c) = rw_closed ?c"
      by (rule "1.IH" [OF g [symmetric] refl])
    have m: "mem ?c = ?h" "subList ?c = subList c" "trace ?c = trace c @ [Sent (Request_Frame RequeueOp (sub_frame (subscriptions (mem c) s)))]"
      "subChannel ?c = subChannel c" "writeChannel ?c = writeChannel c" "subs ?c = subs c"
      "txStore ?c = txStore c" "rw_closed ?c = rw_closed c"
      by (simp_all add: emit_def)
    have l: "lists ?h (subList c) = rest" by simp
    have q: "Requeue_requests ?h rest = Requeue_requests (mem c) rest"
      by (simp add: Requeue_requests_def)
    from ih show ?thesis
      unfolding r [symmetric] m l q Cons
      by (simp add: Requeue_requests_def)
  qed
qed


text \<open>
  Claim C7. \<^verbatim>\<open>cleanupConn\<close> sends to the upper layer one \<^verbatim>\<open>UnsubscribeOp\<close> request for each
  entry of the map of subscriptions, then one \<^verbatim>\<open>RequeueOp\<close> request with the frame of each
  subscription of the pending-ack list, in the order of the list, then a \<^verbatim>\<open>RequeueOp\<close>
  request for each subscription still on the subscription channel, then one
  \<^verbatim>\<open>DisconnectedOp\<close> request, and after it only \<^verbatim>\<open>RequeueOp\<close> requests for subscriptions that
  arrived late. It leaves the map, the list, the channels and the transaction store
  empty and the socket closed. Every return of the processing loop runs it.
\<close>

theorem cleanupConn_requests:
  "trace (cleanupConn c late) =
     trace c @ Unsubscribe_requests (subs c)
       @ Requeue_requests (mem c) (lists (mem c) (subList c))
       @ Requeue_requests (mem c) (subChannel c)
       @ [Sent (Request_Conn DisconnectedOp)]
       @ Requeue_requests (mem c) late
   \<and> subs (cleanupConn c late) = []
   \<and> lists (mem (cleanupConn c late)) (subList (cleanupConn c late)) = []
   \<and> subChannel (cleanupConn c late) = [] \<and> writeChannel (cleanupConn c late) = []
   \<and> txStore (cleanupConn c late) = txStore_Init
   \<and> rw_closed (cleanupConn c late)
   \<and> (turn n c0 i = Some (c, Return) \<longrightarrow>
        processLoop_from n c0 (i # inputs) = Some (cleanupConn c [], Return))"
proof -
  define c4 where
    "c4 = (unsubscribe_all (discardWriteChannelFrames (c\<lparr>txStore := txStore_Init\<rparr>))
             (subs c))\<lparr>subs := []\<rparr>"
  have c4: "c4 = c\<lparr>txStore := txStore_Init, writeChannel := [],
                   trace := trace c @ Unsubscribe_requests (subs c), subs := []\<rparr>"
    by (simp add: c4_def unsubscribe_all_eq discardWriteChannelFrames_def)
  define c5 where "c5 = requeue_subList c4"
  note p = requeue_subList_props [of c4, folded c5_def]
  have f: "Requeue_requests (mem c5) ss = Requeue_requests (mem c) ss" for ss
    using p by (simp add: Requeue_requests_def c4)
  have e: "cleanupConn c late =
      (cleanupSubChannel (discardWriteChannelFrames
         ((emit (cleanupSubChannel (discardWriteChannelFrames c5))
             (Sent (Request_Conn DisconnectedOp)))
          \<lparr>subChannel := subChannel (emit (cleanupSubChannel (discardWriteChannelFrames c5))
             (Sent (Request_Conn DisconnectedOp))) @ late\<rparr>)))\<lparr>rw_closed := True\<rparr>"
    by (simp add: cleanupConn_def Let_def c5_def c4_def discardWriteChannelFrames_def)
  have t: "trace c5 = trace c @ Unsubscribe_requests (subs c)
       @ Requeue_requests (mem c) (lists (mem c) (subList c))"
    using p by (simp add: c4 Requeue_requests_def)
  have s: "subChannel c5 = subChannel c" "subs c5 = []" "txStore c5 = txStore_Init"
    "lists (mem c5) (subList c5) = []"
    using p by (simp_all add: c4)
  have "trace (cleanupConn c late) =
     trace c @ Unsubscribe_requests (subs c)
       @ Requeue_requests (mem c) (lists (mem c) (subList c))
       @ Requeue_requests (mem c) (subChannel c)
       @ [Sent (Request_Conn DisconnectedOp)]
       @ Requeue_requests (mem c) late"
    unfolding e
    by (simp add: cleanupSubChannel_def discardWriteChannelFrames_def requeue_all_eq emit_def f t s)
  moreover have "subs (cleanupConn c late) = []"
    "lists (mem (cleanupConn c late)) (subList (cleanupConn c late)) = []"
    "subChannel (cleanupConn c late) = []" "writeChannel (cleanupConn c late) = []"
    "txStore (cleanupConn c late) = txStore_Init" "rw_closed (cleanupConn c late)"
    unfolding e
    by (simp_all add: cleanupSubChannel_def discardWriteChannelFrames_def requeue_all_eq emit_def s)
  moreover have "turn n c0 i = Some (c, Return) \<longrightarrow>
        processLoop_from n c0 (i # inputs) = Some (cleanupConn c [], Return)"
    by simp
  ultimately show ?thesis by (intro conjI)
qed

theorem cleanupConn_requests_witness:
  "turn (Suc 0) conn3 (Select_readChannel None) = Some (conn3, Return)
   \<and> processLoop_from (Suc 0) conn3 [Select_readChannel None] = Some (cleanupConn conn3 [], Return)
   \<and> trace (cleanupConn conn3 []) =
       [Sent (Request_Sub UnsubscribeOp 1),
        Sent (Request_Frame RequeueOp (Some msg1)),
        Sent (Request_Conn DisconnectedOp)]"
proof -
  have h: "trace conn3 = []" "subs conn3 = [(''s1'', 1)]" "lists (mem conn3) (subList conn3) = [1]"
    "subChannel conn3 = []" "sub_frame (subscriptions (mem conn3) 1) = Some msg1"
    "\<not> blocked conn3"
    by (simp_all add: conn3_def conn2_def conn1_def conn0_def NewConn_def heap2_def heap1_def
        heap0_def sub0_def set_subList_def)
  have t: "turn (Suc 0) conn3 (Select_readChannel None) = Some (conn3, Return)"
    using h by (simp add: turn_def)
  note c = cleanupConn_requests [of conn3 "[]" "Suc 0" conn3 "Select_readChannel None" "[]"]
  from c t have p: "processLoop_from (Suc 0) conn3 [Select_readChannel None]
      = Some (cleanupConn conn3 [], Return)"
    by blast
  from c have "trace (cleanupConn conn3 []) =
     trace conn3 @ Unsubscribe_requests (subs conn3)
       @ Requeue_requests (mem conn3) (lists (mem conn3) (subList conn3))
       @ Requeue_requests (mem conn3) (subChannel conn3)
       @ [Sent (Request_Conn DisconnectedOp)]
       @ Requeue_requests (mem conn3) []"
    by (elim conjE)
  then have "trace (cleanupConn conn3 []) =
       [Sent (Request_Sub UnsubscribeOp 1),
        Sent (Request_Frame RequeueOp (Some msg1)),
        Sent (Request_Conn DisconnectedOp)]"
    using h by (simp add: Unsubscribe_requests_def Requeue_requests_def)
  with t p show ?thesis by (intro conjI)
qed

subsection \<open>Subscription deliveries\<close>

lemma written_append [simp]: "written (xs @ ys) = written xs @ written ys"
  by (induction xs rule: written.induct) simp_all

lemma requests_append [simp]: "requests (xs @ ys) = requests xs @ requests ys"
  by (induction xs rule: requests.induct) simp_all

text \<open>One delivery.\<close>

lemma from_subChannel_delivers:
  assumes m: "holds_MESSAGE c sub"
    and w: "next_write_ok (sock c)"
    and free: "\<not> auto_ack c sub \<longrightarrow> sub_subList (subscriptions (mem c) sub) = None"
  shows "\<exists>c' f. from_subChannel c sub = (c', Continue)
      \<and> trace c' = trace c @ Wrote (Some f) #
            (if auto_ack c sub then [Sent (Request_Sub SubscribeOp sub)] else [])
      \<and> Command f = MESSAGE
      \<and> Contains (Headers f) MessageId = (FormatUint (unat (lastMsgId c + 1)), True)
      \<and> (if auto_ack c sub then \<not> snd (Contains (Headers f) Ack)
          else Contains (Headers f) Ack = Contains (Headers f) MessageId)
      \<and> lastMsgId c' = lastMsgId c + 1
      \<and> subList c' = subList c
      \<and> sock c' = tl (sock c)
      \<and> lists (mem c') (subList c) = lists (mem c) (subList c) @ (if auto_ack c sub then [] else [sub])
      \<and> (\<forall>p. sub_ack (subscriptions (mem c') p) = sub_ack (subscriptions (mem c) p))
      \<and> (\<forall>p. holds_MESSAGE c p \<longrightarrow> holds_MESSAGE c' p)
      \<and> (\<forall>p. p \<noteq> sub \<longrightarrow> sub_subList (subscriptions (mem c') p) = sub_subList (subscriptions (mem c) p))"
proof -
  from m obtain f0 where f0: "sub_frame (subscriptions (mem c) sub) = Some f0" "Command f0 = MESSAGE"
    by (auto simp: holds_MESSAGE_def split: option.splits)
  show ?thesis
  proof (cases "sock c")
    case Nil
    with f0 free show ?thesis
      by (cases "auto_ack c sub")
         (auto simp: from_subChannel_def allocateMessageId_def Let_def Write_def emit_def
           set_frame_def Add_def set_subList_def auto_ack_def holds_MESSAGE_def)
  next
    case (Cons b bs)
    with w have "b" by (simp add: next_write_ok_def)
    with Cons f0 free show ?thesis
      by (cases "auto_ack c sub")
         (auto simp: from_subChannel_def allocateMessageId_def Let_def Write_def emit_def
           set_frame_def Add_def set_subList_def auto_ack_def holds_MESSAGE_def)
  qed
qed


lemma list_all_take_Suc:
  "list_all (\<lambda>b. b) (take (Suc n) net) \<Longrightarrow>
     next_write_ok net \<and> list_all (\<lambda>b. b) (take n (tl net))"
  by (cases net) (simp_all add: next_write_ok_def)

lemma deliveries_run:
  assumes "\<forall>s\<in>set ss. holds_MESSAGE c s"
    and "list_all (\<lambda>b. b) (take (length ss) (sock c))"
    and "\<forall>s\<in>set ss. \<not> auto_ack c s \<longrightarrow> sub_subList (subscriptions (mem c) s) = None"
    and "distinct (filter (\<lambda>s. \<not> auto_ack c s) ss)"
  shows "\<exists>c' evs. deliveries c ss = (c', Continue) \<and> trace c' = trace c @ evs
      \<and> map (\<lambda>f. Contains (Headers f) MessageId) (written evs) =
          map (\<lambda>i. (FormatUint (unat (lastMsgId c + of_nat (Suc i))), True)) [0..<length ss]
      \<and> list_all2 (\<lambda>s f. Command f = MESSAGE \<and>
            (if auto_ack c s then \<not> snd (Contains (Headers f) Ack)
             else Contains (Headers f) Ack = Contains (Headers f) MessageId)) ss (written evs)
      \<and> requests evs = map (Request_Sub SubscribeOp) (filter (auto_ack c) ss)
      \<and> subList c' = subList c
      \<and> lists (mem c') (subList c) =
          lists (mem c) (subList c) @ filter (\<lambda>s. \<not> auto_ack c s) ss
      \<and> lastMsgId c' = lastMsgId c + of_nat (length ss)"
  using assms
proof (induction ss arbitrary: c)
  case Nil
  then show ?case by simp
next
  case (Cons sub ss)
  from Cons.prems(2) have w: "next_write_ok (sock c)"
    and w': "list_all (\<lambda>b. b) (take (length ss) (tl (sock c)))"
    using list_all_take_Suc [of "length ss" "sock c"] by simp_all
  from Cons.prems have m: "holds_MESSAGE c sub"
    and free: "\<not> auto_ack c sub \<longrightarrow> sub_subList (subscriptions (mem c) sub) = None"
    by simp_all
  from from_subChannel_delivers [OF m w free]
  obtain c1 f where
    s1: "from_subChannel c sub = (c1, Continue)"
    and t1: "trace c1 = trace c @ Wrote (Some f) #
            (if auto_ack c sub then [Sent (Request_Sub SubscribeOp sub)] else [])"
    and f1: "Command f = MESSAGE"
      "Contains (Headers f) MessageId = (FormatUint (unat (lastMsgId c + 1)), True)"
      "if auto_ack c sub then \<not> snd (Contains (Headers f) Ack)
          else Contains (Headers f) Ack = Contains (Headers f) MessageId"
    and k1: "lastMsgId c1 = lastMsgId c + 1"
    and l1: "subList c1 = subList c" "sock c1 = tl (sock c)"
      "lists (mem c1) (subList c) = lists (mem c) (subList c) @ (if auto_ack c sub then [] else [sub])"
    and a1: "\<forall>p. sub_ack (subscriptions (mem c1) p) = sub_ack (subscriptions (mem c) p)"
    and h1: "\<forall>p. holds_MESSAGE c p \<longrightarrow> holds_MESSAGE c1 p"
    and b1: "\<forall>p. p \<noteq> sub \<longrightarrow>
        sub_subList (subscriptions (mem c1) p) = sub_subList (subscriptions (mem c) p)"
    by blast
  have au: "auto_ack c1 = auto_ack c" using a1 by (simp add: auto_ack_def fun_eq_iff)
  have p1: "\<forall>s\<in>set ss. holds_MESSAGE c1 s" using Cons.prems(1) h1 by simp
  have p2: "list_all (\<lambda>b. b) (take (length ss) (sock c1))" using w' l1 by simp
  have p3: "\<forall>s\<in>set ss. \<not> auto_ack c1 s \<longrightarrow> sub_subList (subscriptions (mem c1) s) = None"
  proof (intro ballI impI)
    fix s assume s: "s \<in> set ss" and n: "\<not> auto_ack c1 s"
    from n au have n': "\<not> auto_ack c s" by simp
    have "s \<noteq> sub"
    proof
      assume "s = sub"
      with s n' Cons.prems(4) show False by simp
    qed
    with b1 have "sub_subList (subscriptions (mem c1) s) = sub_subList (subscriptions (mem c) s)"
      by simp
    with Cons.prems(3) s n' show "sub_subList (subscriptions (mem c1) s) = None" by simp
  qed
  have p4: "distinct (filter (\<lambda>s. \<not> auto_ack c1 s) ss)"
    using Cons.prems(4) au by (simp split: if_splits)
  from Cons.IH [OF p1 p2 p3 p4]
  obtain c' evs where
    d: "deliveries c1 ss = (c', Continue)" and t: "trace c' = trace c1 @ evs"
    and ids: "map (\<lambda>f. Contains (Headers f) MessageId) (written evs) =
          map (\<lambda>i. (FormatUint (unat (lastMsgId c1 + of_nat (Suc i))), True)) [0..<length ss]"
    and acks: "list_all2 (\<lambda>s f. Command f = MESSAGE \<and>
            (if auto_ack c1 s then \<not> snd (Contains (Headers f) Ack)
             else Contains (Headers f) Ack = Contains (Headers f) MessageId)) ss (written evs)"
    and rq: "requests evs = map (Request_Sub SubscribeOp) (filter (auto_ack c1) ss)"
    and sl: "subList c' = subList c1"
    and ls: "lists (mem c') (subList c1) =
          lists (mem c1) (subList c1) @ filter (\<lambda>s. \<not> auto_ack c1 s) ss"
    and k: "lastMsgId c' = lastMsgId c1 + of_nat (length ss)"
    by blast
  let ?evs = "Wrote (Some f) #
      (if auto_ack c sub then [Sent (Request_Sub SubscribeOp sub)] else []) @ evs"
  have "deliveries c (sub # ss) = (c', Continue)" using s1 d by simp
  moreover have "trace c' = trace c @ ?evs" using t t1 by simp
  moreover have "map (\<lambda>f. Contains (Headers f) MessageId) (written ?evs) =
      map (\<lambda>i. (FormatUint (unat (lastMsgId c + of_nat (Suc i))), True)) [0..<length (sub # ss)]"
    using ids f1(2) k1 by (simp add: map_upt_Suc add.assoc del: upt_Suc)
  moreover have "list_all2 (\<lambda>s f. Command f = MESSAGE \<and>
            (if auto_ack c s then \<not> snd (Contains (Headers f) Ack)
             else Contains (Headers f) Ack = Contains (Headers f) MessageId))
        (sub # ss) (written ?evs)"
    using acks f1 au by simp
  moreover have "requests ?evs = map (Request_Sub SubscribeOp) (filter (auto_ack c) (sub # ss))"
    using rq au by simp
  moreover have "subList c' = subList c" using sl l1 by simp
  moreover have "lists (mem c') (subList c) =
      lists (mem c) (subList c) @ filter (\<lambda>s. \<not> auto_ack c s) (sub # ss)"
    using ls l1 au by simp
  moreover have "lastMsgId c' = lastMsgId c + of_nat (length (sub # ss))"
    using k k1 by simp
  ultimately show ?case by blast
qed


lemma digit_val_digit_char: "d < 10 \<Longrightarrow> digit_val (digit_char d) = d"
proof -
  assume "d < 10"
  then have "d = 0 \<or> d = 1 \<or> d = 2 \<or> d = 3 \<or> d = 4 \<or> d = 5 \<or> d = 6 \<or> d = 7 \<or> d = 8 \<or> d = 9"
    by arith
  then show ?thesis by (auto simp: digit_val_def digit_char_def)
qed

lemma dec_value_snoc: "dec_value (s @ [d]) = dec_value s * 10 + digit_val d"
  by (simp add: dec_value_def)

lemma dec_value_FormatUint: "dec_value (FormatUint n) = n"
proof (induction n rule: FormatUint.induct)
  case (1 n)
  show ?case
  proof (cases "n < 10")
    case True
    then show ?thesis
      by (subst FormatUint.simps) (simp add: dec_value_def digit_val_digit_char)
  next
    case False
    with 1 have "dec_value (FormatUint (n div 10)) = n div 10" by simp
    with False show ?thesis
      by (subst FormatUint.simps) (simp add: dec_value_snoc digit_val_digit_char)
  qed
qed

text \<open>
  Claim C6, as the code has it. A fresh session processes fewer than \<open>2\<^sup>6\<^sup>4\<close> subscription
  deliveries, each of a subscription that holds a MESSAGE frame; the socket writes
  succeed; no subscription in mode \<^verbatim>\<open>client\<close> or \<^verbatim>\<open>client-individual\<close> is delivered while
  it is in a subscription list. Then every delivery is processed, the frames written
  carry the message ids 1, 2, 3, ... in decimal, in this order; a frame of a subscription
  in mode \<^verbatim>\<open>auto\<close> has no \<^verbatim>\<open>ack\<close> header and a \<^verbatim>\<open>SubscribeOp\<close> request for the subscription
  goes to the upper layer; a frame of any other subscription has an \<^verbatim>\<open>ack\<close> header equal
  to its message id and the subscription is put at the back of the pending-ack list.
\<close>

theorem message_ids_increase:
  assumes fresh: "lastMsgId c = 0"
    and few: "length ss < 2 ^ 64"
    and msgs: "\<forall>s\<in>set ss. holds_MESSAGE c s"
    and net: "list_all (\<lambda>b. b) (take (length ss) (sock c))"
    and free: "\<forall>s\<in>set ss. \<not> auto_ack c s \<longrightarrow> sub_subList (subscriptions (mem c) s) = None"
    and once: "distinct (filter (\<lambda>s. \<not> auto_ack c s) ss)"
  shows "\<exists>c' evs. deliveries c ss = (c', Continue) \<and> trace c' = trace c @ evs
      \<and> map (\<lambda>f. Contains (Headers f) MessageId) (written evs) =
          map (\<lambda>i. (FormatUint i, True)) [1..<Suc (length ss)]
      \<and> map (\<lambda>f. dec_value (fst (Contains (Headers f) MessageId))) (written evs) =
          [1..<Suc (length ss)]
      \<and> list_all2 (\<lambda>s f. Command f = MESSAGE \<and>
            (if auto_ack c s then \<not> snd (Contains (Headers f) Ack)
             else Contains (Headers f) Ack = Contains (Headers f) MessageId)) ss (written evs)
      \<and> requests evs = map (Request_Sub SubscribeOp) (filter (auto_ack c) ss)
      \<and> lists (mem c') (subList c') =
          lists (mem c) (subList c) @ filter (\<lambda>s. \<not> auto_ack c s) ss"
proof -
  from deliveries_run [OF msgs net free once]
  obtain c' evs where
    d: "deliveries c ss = (c', Continue)" and t: "trace c' = trace c @ evs"
    and ids: "map (\<lambda>f. Contains (Headers f) MessageId) (written evs) =
          map (\<lambda>i. (FormatUint (unat (lastMsgId c + of_nat (Suc i))), True)) [0..<length ss]"
    and acks: "list_all2 (\<lambda>s f. Command f = MESSAGE \<and>
            (if auto_ack c s then \<not> snd (Contains (Headers f) Ack)
             else Contains (Headers f) Ack = Contains (Headers f) MessageId)) ss (written evs)"
    and rq: "requests evs = map (Request_Sub SubscribeOp) (filter (auto_ack c) ss)"
    and sl: "subList c' = subList c"
    and ls: "lists (mem c') (subList c) =
          lists (mem c) (subList c) @ filter (\<lambda>s. \<not> auto_ack c s) ss"
    by blast
  have u: "unat (lastMsgId c + of_nat (Suc i)) = Suc i" if "i < length ss" for i
  proof -
    from that few have "Suc i < 2 ^ 64" by simp
    then have "unat (of_nat (Suc i) :: 64 word) = Suc i"
      by (simp add: unat_of_nat del: of_nat_Suc)
    with fresh show ?thesis by simp
  qed
  have m: "map (\<lambda>i. (FormatUint (unat (lastMsgId c + of_nat (Suc i))), True)) [0..<length ss]
      = map (\<lambda>i. (FormatUint i, True)) [1..<Suc (length ss)]"
  proof -
    have "map (\<lambda>i. (FormatUint (unat (lastMsgId c + of_nat (Suc i))), True)) [0..<length ss]
        = map (\<lambda>i. (FormatUint (Suc i), True)) [0..<length ss]"
      using u by (intro map_cong) simp_all
    also have "\<dots> = map (\<lambda>i. (FormatUint i, True)) (map Suc [0..<length ss])"
      by (simp add: comp_def)
    also have "map Suc [0..<length ss] = [1..<Suc (length ss)]"
      by (simp only: map_Suc_upt One_nat_def)
    finally show ?thesis .
  qed
  have i1: "map (\<lambda>f. Contains (Headers f) MessageId) (written evs) =
          map (\<lambda>i. (FormatUint i, True)) [1..<Suc (length ss)]"
    using ids m by simp
  have "map (\<lambda>f. dec_value (fst (Contains (Headers f) MessageId))) (written evs)
      = map (\<lambda>p. dec_value (fst p)) (map (\<lambda>f. Contains (Headers f) MessageId) (written evs))"
    by (simp add: comp_def)
  also have "\<dots> = map (\<lambda>i. i) [1..<Suc (length ss)]"
    unfolding i1 by (simp add: comp_def dec_value_FormatUint del: upt_Suc)
  finally have i2: "map (\<lambda>f. dec_value (fst (Contains (Headers f) MessageId))) (written evs) =
          [1..<Suc (length ss)]" by simp
  from d t i1 i2 acks rq ls sl show ?thesis by auto
qed

text \<open>
  A subscription in mode \<^verbatim>\<open>client\<close> that is delivered a second time while it is still in
  the pending-ack list: the second frame is written, with message id 2, and then
  \<^verbatim>\<open>Add\<close> panics; the subscription is not pushed.
\<close>

theorem second_delivery_panics:
  "snd (deliveries conn2 [1, 1]) = Panicked already_in_a_subscription_list
   \<and> holds_MESSAGE conn2 1 \<and> \<not> auto_ack conn2 1
   \<and> written (trace (fst (deliveries conn2 [1, 1]))) =
       [\<lparr>Command = MESSAGE,
         Headers = [(Destination, ''/q''), (Subscription_hdr, ''s1''), (MessageId, ''1''), (Ack, ''1'')],
         Body = ''hi''\<rparr>,
        \<lparr>Command = MESSAGE,
         Headers = [(Destination, ''/q''), (Subscription_hdr, ''s1''), (MessageId, ''2''), (Ack, ''2'')],
         Body = ''hi''\<rparr>]
   \<and> lists (mem (fst (deliveries conn2 [1, 1]))) (subList conn2) = [1]"
  by (simp add: conn2_def conn1_def conn0_def NewConn_def heap1_def heap0_def sub0_def msg1_def
      from_subChannel_def allocateMessageId_def Let_def set_frame_def Add_def Write_def emit_def
      set_subList_def FormatUint.simps digit_char_def holds_MESSAGE_def auto_ack_def)

theorem message_ids_increase_witness:
  "lastMsgId conn2 = 0 \<and> holds_MESSAGE conn2 1 \<and> \<not> auto_ack conn2 1
   \<and> sub_subList (subscriptions (mem conn2) 1) = None
   \<and> (\<exists>c' evs. deliveries conn2 [1] = (c', Continue) \<and> trace c' = trace conn2 @ evs
        \<and> map (\<lambda>f. Contains (Headers f) MessageId) (written evs) = [(''1'', True)]
        \<and> map (\<lambda>f. Contains (Headers f) Ack) (written evs) = [(''1'', True)]
        \<and> requests evs = []
        \<and> lists (mem c') (subList c') = [1])"
proof -
  have h: "lastMsgId conn2 = 0" "holds_MESSAGE conn2 1" "\<not> auto_ack conn2 1"
    "sub_subList (subscriptions (mem conn2) 1) = None" "sock conn2 = []"
    "lists (mem conn2) (subList conn2) = []"
    by (simp_all add: conn2_def conn1_def conn0_def NewConn_def heap1_def heap0_def sub0_def
        msg1_def holds_MESSAGE_def auto_ack_def)
  have "\<exists>c' evs. deliveries conn2 [1] = (c', Continue) \<and> trace c' = trace conn2 @ evs
      \<and> map (\<lambda>f. Contains (Headers f) MessageId) (written evs) =
          map (\<lambda>i. (FormatUint i, True)) [1..<Suc (length [1::nat])]
      \<and> map (\<lambda>f. dec_value (fst (Contains (Headers f) MessageId))) (written evs) =
          [1..<Suc (length [1::nat])]
      \<and> list_all2 (\<lambda>s f. Command f = MESSAGE \<and>
            (if auto_ack conn2 s then \<not> snd (Contains (Headers f) Ack)
             else Contains (Headers f) Ack = Contains (Headers f) MessageId)) [1] (written evs)
      \<and> requests evs = map (Request_Sub SubscribeOp) (filter (auto_ack conn2) [1])
      \<and> lists (mem c') (subList c') =
          lists (mem conn2) (subList conn2) @ filter (\<lambda>s. \<not> auto_ack conn2 s) [1]"
    by (rule message_ids_increase) (use h in simp_all)
  then obtain c' evs where
    a: "deliveries conn2 [1] = (c', Continue)" "trace c' = trace conn2 @ evs"
    and b: "map (\<lambda>f. Contains (Headers f) MessageId) (written evs) =
          map (\<lambda>i. (FormatUint i, True)) [1..<Suc (length [1::nat])]"
    and c: "list_all2 (\<lambda>s f. Command f = MESSAGE \<and>
            (if auto_ack conn2 s then \<not> snd (Contains (Headers f) Ack)
             else Contains (Headers f) Ack = Contains (Headers f) MessageId)) [1] (written evs)"
    and d: "requests evs = map (Request_Sub SubscribeOp) (filter (auto_ack conn2) [1])"
    and e: "lists (mem c') (subList c') =
          lists (mem conn2) (subList conn2) @ filter (\<lambda>s. \<not> auto_ack conn2 s) [1]"
    by (elim exE conjE)
  from b have b': "map (\<lambda>f. Contains (Headers f) MessageId) (written evs) = [(''1'', True)]"
    by (simp add: FormatUint.simps digit_char_def)
  then obtain f where f: "written evs = [f]" "Contains (Headers f) MessageId = (''1'', True)"
    by auto
  from c f h(3) have "Contains (Headers f) Ack = (''1'', True)" by simp
  with f have c': "map (\<lambda>f. Contains (Headers f) Ack) (written evs) = [(''1'', True)]" by simp
  from d h(3) have d': "requests evs = []" by simp
  from e h have e': "lists (mem c') (subList c') = [1]" by simp
  from a b' c' d' e' have "\<exists>c' evs. deliveries conn2 [1] = (c', Continue) \<and> trace c' = trace conn2 @ evs
        \<and> map (\<lambda>f. Contains (Headers f) MessageId) (written evs) = [(''1'', True)]
        \<and> map (\<lambda>f. Contains (Headers f) Ack) (written evs) = [(''1'', True)]
        \<and> requests evs = []
        \<and> lists (mem c') (subList c') = [1]"
    by (intro exI [of _ c'] exI [of _ evs] conjI)
  with h show ?thesis by (intro conjI)
qed

subsection \<open>Receipts\<close>

lemma Remove_hdr_absent: "\<not> snd (Contains hs name) \<Longrightarrow> Remove_hdr hs name = hs"
  by (induction hs) (auto simp: Remove_hdr_def split: if_splits)

lemma sendReceipt_obs:
  "\<exists>c1 e. sendReceiptImmediately c f = (c1, f\<lparr>Headers := Remove_hdr (Headers f) Receipt\<rparr>, e)
     \<and> txStore c1 = txStore c \<and> stateFunc c1 = stateFunc c
     \<and> (if snd (Contains (Headers f) Receipt) then
           (if next_write_ok (sock c)
            then e = None \<and> trace c1 = trace c @ [RECEIPT_for (fst (Contains (Headers f) Receipt))]
            else e = Some writeFailed \<and> trace c1 = trace c)
         else e = None \<and> trace c1 = trace c)"
proof (cases "Contains (Headers f) Receipt")
  case (Pair r ok)
  show ?thesis
  proof (cases ok)
    case False
    with Pair have "Remove_hdr (Headers f) Receipt = Headers f"
      using Remove_hdr_absent [of "Headers f" Receipt] by simp
    with Pair False show ?thesis by (simp add: sendReceiptImmediately_def)
  next
    case True
    with Pair show ?thesis
      by (cases "sock c")
         (auto simp: sendReceiptImmediately_def sendImmediately_def Write_def emit_def
           next_write_ok_def RECEIPT_for_def)
  qed
qed



lemma txStore_clean_cong:
  "txStore c' = txStore c \<Longrightarrow> txStore_clean c' = txStore_clean c"
  by (simp add: txStore_clean_def)

lemma receipt_firstI:
  assumes "\<not> snd (Contains (Headers f') Receipt)"
    and "snd (Contains (Headers f) Receipt) \<Longrightarrow> next_write_ok (sock c) \<Longrightarrow>
           \<exists>rest. trace c' = trace c @ RECEIPT_for (fst (Contains (Headers f) Receipt)) # rest"
    and "snd (Contains (Headers f) Receipt) \<Longrightarrow> \<not> next_write_ok (sock c) \<Longrightarrow>
           trace c' = trace c \<and> err = Some writeFailed"
  shows "receipt_first c f (c', f', err)"
  using assms by (simp add: receipt_first_def)

lemma handleSend_good:
  assumes inv: "txStore_clean c" and cmd: "Command f = SEND"
  shows "txStore_clean (fst (handleSend c f)) \<and> stateFunc (fst (handleSend c f)) = stateFunc c
     \<and> receipt_first c f (handleSend c f)"
proof -
  let ?f1 = "f\<lparr>Headers := Remove_hdr (Headers f) Receipt\<rparr>"
  from sendReceipt_obs [of c f] obtain c1 e where
    s: "sendReceiptImmediately c f = (c1, ?f1, e)"
    and o: "txStore c1 = txStore c" "stateFunc c1 = stateFunc c"
    and t: "if snd (Contains (Headers f) Receipt) then
           (if next_write_ok (sock c)
            then e = None \<and> trace c1 = trace c @ [RECEIPT_for (fst (Contains (Headers f) Receipt))]
            else e = Some writeFailed \<and> trace c1 = trace c)
         else e = None \<and> trace c1 = trace c"
    by blast
  have i1: "txStore_clean c1" using inv o by (simp add: txStore_clean_def)
  show ?thesis
  proof (cases e)
    case (Some err)
    then have h: "handleSend c f = (c1, ?f1, Some err)" using s by (simp add: handleSend_def)
    have "receipt_first c f (c1, ?f1, Some err)"
      using t Some by (intro receipt_firstI) (auto split: if_splits)
    with h i1 o show ?thesis by simp
  next
    case None
    obtain tx ok where c: "Contains (Headers ?f1) Transaction = (tx, ok)" by (cases "Contains (Headers ?f1) Transaction")
    show ?thesis
    proof (cases ok)
      case False
      let ?c' = "emit c1 (Sent (Request_Frame EnqueueOp (Some ?f1)))"
      from None s c False have h: "handleSend c f = (?c', ?f1, None)"
        by (simp add: handleSend_def)
      have "receipt_first c f (?c', ?f1, None)"
        using t None by (intro receipt_firstI) (auto simp: emit_def split: if_splits)
      moreover have "txStore_clean ?c'" using i1 by (simp add: txStore_clean_def emit_def)
      moreover have "stateFunc ?c' = stateFunc c" using o by (simp add: emit_def)
      ultimately show ?thesis using h by simp
    next
      case True
      show ?thesis
      proof (cases "txStore c1 tx")
        case n: None
        from None s c True n have h: "handleSend c f = (c1, ?f1, Some txUnknown)"
          by (simp add: handleSend_def txStore_Add_def)
        have "receipt_first c f (c1, ?f1, Some txUnknown)"
          using t None by (intro receipt_firstI) (auto split: if_splits)
        with h i1 o show ?thesis by simp
      next
        case (Some frames)
        let ?f2 = "?f1\<lparr>Headers := Remove_hdr (Headers ?f1) Transaction\<rparr>"
        let ?c' = "emit (c1\<lparr>txStore := (txStore c1)(tx := Some (frames @ [?f2]))\<rparr>) (Stored tx ?f2)"
        from None s c True Some have h: "handleSend c f = (?c', ?f2, None)"
          by (simp add: handleSend_def txStore_Add_def Let_def)
        have cf: "clean_frame ?f2" using cmd by (simp add: clean_frame_def)
        have "list_all clean_frame frames" using i1 Some by (simp add: txStore_clean_def)
        with cf i1 have "txStore_clean ?c'" by (simp add: txStore_clean_def emit_def)
        moreover have "receipt_first c f (?c', ?f2, None)"
          using t None by (intro receipt_firstI) (auto simp: emit_def split: if_splits)
        moreover have "stateFunc ?c' = stateFunc c" using o by (simp add: emit_def)
        ultimately show ?thesis using h by simp
      qed
    qed
  qed
qed


lemma sendFrameRequest_good:
  assumes inv: "txStore_clean c"
  shows "txStore_clean (fst (sendFrameRequest c f)) \<and> stateFunc (fst (sendFrameRequest c f)) = stateFunc c
     \<and> receipt_first c f (sendFrameRequest c f)"
proof -
  let ?f1 = "f\<lparr>Headers := Remove_hdr (Headers f) Receipt\<rparr>"
  from sendReceipt_obs [of c f] obtain c1 e where
    s: "sendReceiptImmediately c f = (c1, ?f1, e)"
    and o: "txStore c1 = txStore c" "stateFunc c1 = stateFunc c"
    and t: "if snd (Contains (Headers f) Receipt) then
           (if next_write_ok (sock c)
            then e = None \<and> trace c1 = trace c @ [RECEIPT_for (fst (Contains (Headers f) Receipt))]
            else e = Some writeFailed \<and> trace c1 = trace c)
         else e = None \<and> trace c1 = trace c"
    by blast
  have i1: "txStore_clean c1" using inv o by (simp add: txStore_clean_def)
  show ?thesis
  proof (cases e)
    case (Some err)
    then have h: "sendFrameRequest c f = (c1, ?f1, Some err)" using s by (simp add: sendFrameRequest_def)
    have "receipt_first c f (c1, ?f1, Some err)"
      using t Some by (intro receipt_firstI) (auto split: if_splits)
    with h i1 o show ?thesis by simp
  next
    case None
    let ?c' = "emit c1 (Sent (Request_Frame EnqueueOp (Some ?f1)))"
    from None s have h: "sendFrameRequest c f = (?c', ?f1, None)"
      by (simp add: sendFrameRequest_def)
    have "receipt_first c f (?c', ?f1, None)"
      using t None by (intro receipt_firstI) (auto simp: emit_def split: if_splits)
    moreover have "txStore_clean ?c'" using i1 by (simp add: txStore_clean_def emit_def)
    moreover have "stateFunc ?c' = stateFunc c" using o by (simp add: emit_def)
    ultimately show ?thesis using h by simp
  qed
qed

lemma handleDisconnect_keeps:
  assumes inv: "txStore_clean c"
  shows "txStore_clean (fst (handleDisconnect c f)) \<and> stateFunc (fst (handleDisconnect c f)) = stateFunc c"
proof -
  from sendReceipt_obs [of c f] obtain c1 e where
    s: "sendReceiptImmediately c f = (c1, f\<lparr>Headers := Remove_hdr (Headers f) Receipt\<rparr>, e)"
    and o: "txStore c1 = txStore c" "stateFunc c1 = stateFunc c"
    by blast
  from s have "fst (handleDisconnect c f) = c1" by (simp add: handleDisconnect_def)
  with inv o show ?thesis by (simp add: txStore_clean_def)
qed

text \<open>BEGIN and ABORT: the store gains an empty transaction or loses one.\<close>

lemma handleBegin_good:
  assumes inv: "txStore_clean c"
  shows "txStore_clean (fst (handleBegin c f)) \<and> stateFunc (fst (handleBegin c f)) = stateFunc c
     \<and> (snd (Contains (Headers f) Transaction) \<longrightarrow> receipt_first c f (handleBegin c f))"
proof (cases "Contains (Headers f) Transaction")
  case (Pair tx ok)
  show ?thesis
  proof (cases ok)
    case False
    with Pair inv show ?thesis by (simp add: handleBegin_def)
  next
    case True
    let ?f1 = "f\<lparr>Headers := Remove_hdr (Headers f) Receipt\<rparr>"
    from sendReceipt_obs [of c f] obtain c1 e where
      s: "sendReceiptImmediately c f = (c1, ?f1, e)"
      and o: "txStore c1 = txStore c" "stateFunc c1 = stateFunc c"
      and t: "if snd (Contains (Headers f) Receipt) then
           (if next_write_ok (sock c)
            then e = None \<and> trace c1 = trace c @ [RECEIPT_for (fst (Contains (Headers f) Receipt))]
            else e = Some writeFailed \<and> trace c1 = trace c)
         else e = None \<and> trace c1 = trace c"
      by blast
    have i1: "txStore_clean c1" using inv o by (simp add: txStore_clean_def)
    show ?thesis
    proof (cases e)
      case (Some err)
      then have h: "handleBegin c f = (c1, ?f1, Some err)"
        using s Pair True by (simp add: handleBegin_def)
      have "receipt_first c f (c1, ?f1, Some err)"
        using t Some by (intro receipt_firstI) (auto split: if_splits)
      with h i1 o show ?thesis by simp
    next
      case None
      obtain c2 e2 where b: "txStore_Begin c1 tx = (c2, e2)" by (cases "txStore_Begin c1 tx")
      then have c2: "trace c2 = trace c1" "stateFunc c2 = stateFunc c1" "txStore_clean c2"
        using i1 by (auto simp: txStore_Begin_def txStore_clean_def split: option.splits if_splits)
      from None s Pair True b have h: "handleBegin c f = (c2, ?f1, e2)"
        by (simp add: handleBegin_def)
      have "receipt_first c f (c2, ?f1, e2)"
        using t None c2 by (intro receipt_firstI) (auto split: if_splits)
      with h c2 o show ?thesis by simp
    qed
  qed
qed

lemma handleAbort_good:
  assumes inv: "txStore_clean c"
  shows "txStore_clean (fst (handleAbort c f)) \<and> stateFunc (fst (handleAbort c f)) = stateFunc c
     \<and> (snd (Contains (Headers f) Transaction) \<longrightarrow> receipt_first c f (handleAbort c f))"
proof (cases "Contains (Headers f) Transaction")
  case (Pair tx ok)
  show ?thesis
  proof (cases ok)
    case False
    with Pair inv show ?thesis by (simp add: handleAbort_def)
  next
    case True
    let ?f1 = "f\<lparr>Headers := Remove_hdr (Headers f) Receipt\<rparr>"
    from sendReceipt_obs [of c f] obtain c1 e where
      s: "sendReceiptImmediately c f = (c1, ?f1, e)"
      and o: "txStore c1 = txStore c" "stateFunc c1 = stateFunc c"
      and t: "if snd (Contains (Headers f) Receipt) then
           (if next_write_ok (sock c)
            then e = None \<and> trace c1 = trace c @ [RECEIPT_for (fst (Contains (Headers f) Receipt))]
            else e = Some writeFailed \<and> trace c1 = trace c)
         else e = None \<and> trace c1 = trace c"
      by blast
    have i1: "txStore_clean c1" using inv o by (simp add: txStore_clean_def)
    show ?thesis
    proof (cases e)
      case (Some err)
      then have h: "handleAbort c f = (c1, ?f1, Some err)"
        using s Pair True by (simp add: handleAbort_def)
      have "receipt_first c f (c1, ?f1, Some err)"
        using t Some by (intro receipt_firstI) (auto split: if_splits)
      with h i1 o show ?thesis by simp
    next
      case None
      obtain c2 e2 where b: "txStore_Abort c1 tx = (c2, e2)" by (cases "txStore_Abort c1 tx")
      then have c2: "trace c2 = trace c1" "stateFunc c2 = stateFunc c1" "txStore_clean c2"
        using i1 by (auto simp: txStore_Abort_def txStore_clean_def split: option.splits if_splits)
      from None s Pair True b have h: "handleAbort c f = (c2, ?f1, e2)"
        by (simp add: handleAbort_def)
      have "receipt_first c f (c2, ?f1, e2)"
        using t None c2 by (intro receipt_firstI) (auto split: if_splits)
      with h c2 o show ?thesis by simp
    qed
  qed
qed

text \<open>COMMIT: the frames of a clean store are SEND frames that go to the upper layer.\<close>

lemma replay_clean_frame:
  assumes "stateFunc c = connected_fn" and "clean_frame f"
  shows "map_option drop_frame (call_stateFunc (Suc n) c f)
     = Some (emit c (Sent (Request_Frame EnqueueOp (Some f))), None)"
proof -
  from assms(2) have "sendReceiptImmediately c f = (c, f, None)"
    by (cases "Contains (Headers f) Receipt") (simp add: sendReceiptImmediately_def clean_frame_def)
  with assms show ?thesis
    by (cases "Contains (Headers f) Transaction")
       (simp add: connected_def handleSend_def clean_frame_def drop_frame_def)
qed

lemma replay_clean:
  assumes "stateFunc c = connected_fn" and "list_all clean_frame fs"
  shows "txStore_Commit_loop (\<lambda>c' f'. map_option drop_frame (call_stateFunc (Suc n) c' f')) c fs
     = Some (c\<lparr>trace := trace c @ map (\<lambda>f. Sent (Request_Frame EnqueueOp (Some f))) fs\<rparr>, None)"
proof -
  define replay where "replay = (\<lambda>c' f'. map_option drop_frame (call_stateFunc (Suc n) c' f'))"
  have one: "replay c f = Some (emit c (Sent (Request_Frame EnqueueOp (Some f))), None)"
    if "stateFunc c = connected_fn" "clean_frame f" for c f
    unfolding replay_def using that by (rule replay_clean_frame)
  have "txStore_Commit_loop replay c fs
     = Some (c\<lparr>trace := trace c @ map (\<lambda>f. Sent (Request_Frame EnqueueOp (Some f))) fs\<rparr>, None)"
    using assms
  proof (induction fs arbitrary: c)
    case Nil
    then show ?case by simp
  next
    case (Cons f fs)
    let ?c = "emit c (Sent (Request_Frame EnqueueOp (Some f)))"
    from Cons.prems have r: "replay c f = Some (?c, None)" by (simp add: one)
    have "stateFunc ?c = connected_fn" using Cons.prems by (simp add: emit_def)
    with Cons.IH [of ?c] Cons.prems(2)
    have "txStore_Commit_loop replay ?c fs
       = Some (?c\<lparr>trace := trace ?c @ map (\<lambda>f. Sent (Request_Frame EnqueueOp (Some f))) fs\<rparr>, None)"
      by simp
    with r show ?case by (simp add: emit_def)
  qed
  then show ?thesis unfolding replay_def .
qed

lemma handleCommit_good:
  assumes inv: "txStore_clean c" and st: "stateFunc c = connected_fn"
  shows "\<exists>res. handleCommit (\<lambda>c' f'. map_option drop_frame (call_stateFunc (Suc n) c' f')) c f = Some res
     \<and> txStore_clean (fst res) \<and> stateFunc (fst res) = stateFunc c
     \<and> (snd (Contains (Headers f) Transaction) \<longrightarrow> receipt_first c f res)"
proof (cases "Contains (Headers f) Transaction")
  case (Pair tx ok)
  let ?replay = "\<lambda>c' f'. map_option drop_frame (call_stateFunc (Suc n) c' f')"
  show ?thesis
  proof (cases ok)
    case False
    with Pair inv show ?thesis by (simp add: handleCommit_def del: call_stateFunc.simps)
  next
    case True
    let ?f1 = "f\<lparr>Headers := Remove_hdr (Headers f) Receipt\<rparr>"
    from sendReceipt_obs [of c f] obtain c1 e where
      s: "sendReceiptImmediately c f = (c1, ?f1, e)"
      and o: "txStore c1 = txStore c" "stateFunc c1 = stateFunc c"
      and t: "if snd (Contains (Headers f) Receipt) then
           (if next_write_ok (sock c)
            then e = None \<and> trace c1 = trace c @ [RECEIPT_for (fst (Contains (Headers f) Receipt))]
            else e = Some writeFailed \<and> trace c1 = trace c)
         else e = None \<and> trace c1 = trace c"
      by blast
    have i1: "txStore_clean c1" using inv o by (simp add: txStore_clean_def)
    show ?thesis
    proof (cases e)
      case (Some err)
      then have h: "handleCommit ?replay c f = Some (c1, ?f1, Some err)"
        using s Pair True by (simp add: handleCommit_def del: call_stateFunc.simps)
      have "receipt_first c f (c1, ?f1, Some err)"
        using t Some by (intro receipt_firstI) (auto split: if_splits)
      with h i1 o show ?thesis by simp
    next
      case None
      show ?thesis
      proof (cases "txStore c1 tx")
        case n: None
        from None s Pair True n have h: "handleCommit ?replay c f = Some (c1, ?f1, Some txUnknown)"
          by (simp add: handleCommit_def txStore_Commit_def del: call_stateFunc.simps)
        have "receipt_first c f (c1, ?f1, Some txUnknown)"
          using t None by (intro receipt_firstI) (auto split: if_splits)
        with h i1 o show ?thesis by simp
      next
        case (Some frames)
        let ?c2 = "c1\<lparr>txStore := (txStore c1)(tx := None)\<rparr>"
        let ?c3 = "?c2\<lparr>trace := trace ?c2 @ map (\<lambda>f. Sent (Request_Frame EnqueueOp (Some f))) frames\<rparr>"
        have fr: "list_all clean_frame frames" using i1 Some by (simp add: txStore_clean_def)
        have "stateFunc ?c2 = connected_fn" using o st by simp
        from replay_clean [OF this fr, of n]
        have "txStore_Commit ?replay c1 tx = Some (?c3, None)"
          using Some by (simp add: txStore_Commit_def del: call_stateFunc.simps)
        with None s Pair True have h: "handleCommit ?replay c f = Some (?c3, ?f1, None)"
          by (simp add: handleCommit_def del: call_stateFunc.simps)
        have "txStore_clean ?c3" using i1 by (simp add: txStore_clean_def)
        moreover have "receipt_first c f (?c3, ?f1, None)"
          using t None by (intro receipt_firstI) (auto split: if_splits)
        moreover have "stateFunc ?c3 = stateFunc c" using o by simp
        ultimately show ?thesis using h by simp
      qed
    qed
  qed
qed


lemma Validate_transaction:
  assumes "Validate f = None" and "Command f = BEGIN \<or> Command f = COMMIT \<or> Command f = ABORT"
  shows "snd (Contains (Headers f) Transaction)"
  using assms by (auto simp: Validate_def split: if_splits)

lemma connected_good:
  assumes inv: "txStore_clean c" and st: "stateFunc c = connected_fn"
  shows "\<exists>res. connected (\<lambda>c' f'. map_option drop_frame (call_stateFunc (Suc n) c' f')) c f = Some res
     \<and> txStore_clean (fst res) \<and> stateFunc (fst res) = connected_fn
     \<and> (Command f \<in> set receipt_commands
          \<and> (Command f = BEGIN \<or> Command f = COMMIT \<or> Command f = ABORT \<longrightarrow>
               snd (Contains (Headers f) Transaction))
          \<longrightarrow> receipt_first c f res)"
proof -
  define replay where "replay = (\<lambda>c' f'. map_option drop_frame (call_stateFunc (Suc n) c' f'))"
  consider (c_send) "Command f = SEND"
    | (c_req) "Command f = SUBSCRIBE \<or> Command f = UNSUBSCRIBE \<or> Command f = ACK \<or> Command f = NACK"
    | (c_begin) "Command f = BEGIN" | (c_commit) "Command f = COMMIT" | (c_abort) "Command f = ABORT"
    | (c_disconnect) "Command f = DISCONNECT"
    | (c_other) "Command f \<notin> set receipt_commands" "Command f \<noteq> DISCONNECT"
    by (auto simp: receipt_commands_def)
  then have "\<exists>res. connected replay c f = Some res
     \<and> txStore_clean (fst res) \<and> stateFunc (fst res) = connected_fn
     \<and> (Command f \<in> set receipt_commands
          \<and> (Command f = BEGIN \<or> Command f = COMMIT \<or> Command f = ABORT \<longrightarrow>
               snd (Contains (Headers f) Transaction))
          \<longrightarrow> receipt_first c f res)"
  proof cases
    case c_send
    then have "connected replay c f = Some (handleSend c f)" by (simp add: connected_def)
    with handleSend_good [OF inv c_send] st show ?thesis by simp
  next
    case c_req
    then have "connected replay c f = Some (sendFrameRequest c f)"
      by (auto simp: connected_def handleSubscribe_def handleUnsubscribe_def handleAck_def
          handleNack_def)
    with sendFrameRequest_good [OF inv] st show ?thesis by simp
  next
    case c_begin
    then have "connected replay c f = Some (handleBegin c f)" by (simp add: connected_def)
    with handleBegin_good [OF inv] st c_begin show ?thesis by simp
  next
    case c_abort
    then have "connected replay c f = Some (handleAbort c f)" by (simp add: connected_def)
    with handleAbort_good [OF inv] st c_abort show ?thesis by simp
  next
    case c_commit
    then have "connected replay c f = handleCommit replay c f" by (simp add: connected_def)
    with handleCommit_good [OF inv st, of n f] st c_commit show ?thesis
      unfolding replay_def by auto
  next
    case c_disconnect
    then have "connected replay c f = Some (handleDisconnect c f)" by (simp add: connected_def)
    with handleDisconnect_keeps [OF inv] st c_disconnect show ?thesis
      by (simp add: receipt_commands_def)
  next
    case c_other
    then have "connected replay c f = Some (c, f, Some unexpectedCommand)
        \<or> connected replay c f = Some (c, f, Some unknownCommand)"
      by (auto simp: connected_def receipt_commands_def)
    with inv st c_other show ?thesis by auto
  qed
  then show ?thesis unfolding replay_def .
qed

lemma txStore_clean_NewConn: "txStore_clean (NewConn cfg h sl net)"
  by (simp add: txStore_clean_def NewConn_def)

lemma connecting_keeps_txStore:
  "txStore (fst (connecting c f)) = txStore c"
  by (auto simp: connecting_def handleConnect_def Let_def Send_def split: prod.splits option.splits)

text \<open>
  Claim C1. The connection is in the connected state and its store is clean. Then the
  call of the state function returns for every frame and leaves the store clean, so a
  frame in the store never has a \<^verbatim>\<open>receipt\<close> header. If the frame is valid, its command is
  one of SEND, SUBSCRIBE, UNSUBSCRIBE, ACK, NACK, BEGIN, COMMIT and ABORT, and it has a
  \<^verbatim>\<open>receipt\<close> header with the value \<open>r\<close>, then the frame as the handler leaves it has no
  \<^verbatim>\<open>receipt\<close> header, and: when the write to the socket succeeds, the first event that the
  call adds is the RECEIPT frame with \<^verbatim>\<open>receipt-id\<close> \<open>r\<close>, so that every request to the upper
  layer and every frame put into the store comes after it; when the write fails, the call
  adds no event and returns the error.
\<close>

theorem receipt_before_effects:
  assumes st: "stateFunc c = connected_fn" and inv: "txStore_clean c"
  shows "\<exists>c' f' err. call_stateFunc (Suc (Suc n)) c f = Some (c', f', err)
     \<and> txStore_clean c' \<and> stateFunc c' = connected_fn
     \<and> (Validate f = None \<and> Command f \<in> set receipt_commands
          \<and> Contains (Headers f) Receipt = (r, True) \<longrightarrow>
            \<not> snd (Contains (Headers f') Receipt)
          \<and> (if next_write_ok (sock c)
             then \<exists>rest. trace c' =
                    trace c @ Wrote (Some (NewFrame RECEIPT [(ReceiptId, r)])) # rest
             else trace c' = trace c \<and> err = Some writeFailed))"
proof -
  from connected_good [OF inv st, of n f] obtain res where
    r: "connected (\<lambda>c' f'. map_option drop_frame (call_stateFunc (Suc n) c' f')) c f = Some res"
    and g: "txStore_clean (fst res)" "stateFunc (fst res) = connected_fn"
    and rf: "Command f \<in> set receipt_commands
          \<and> (Command f = BEGIN \<or> Command f = COMMIT \<or> Command f = ABORT \<longrightarrow>
               snd (Contains (Headers f) Transaction))
          \<longrightarrow> receipt_first c f res"
    by blast
  obtain c' f' err where res: "res = (c', f', err)" by (cases res)
  have call: "call_stateFunc (Suc (Suc n)) c f = Some (c', f', err)"
    using st r res by (simp del: call_stateFunc.simps add: call_stateFunc.simps(2) [of "Suc n"])
  have "\<not> snd (Contains (Headers f') Receipt)
          \<and> (if next_write_ok (sock c)
             then \<exists>rest. trace c' =
                    trace c @ Wrote (Some (NewFrame RECEIPT [(ReceiptId, r)])) # rest
             else trace c' = trace c \<and> err = Some writeFailed)"
    if v: "Validate f = None" and cm: "Command f \<in> set receipt_commands"
      and rc: "Contains (Headers f) Receipt = (r, True)"
  proof -
    have "Command f = BEGIN \<or> Command f = COMMIT \<or> Command f = ABORT \<longrightarrow>
               snd (Contains (Headers f) Transaction)"
      using Validate_transaction [OF v] by blast
    with rf cm have "receipt_first c f (c', f', err)" using res by simp
    with rc show ?thesis by (simp add: receipt_first_def RECEIPT_for_def split: if_splits)
  qed
  with call g res show ?thesis by auto
qed

theorem receipt_before_effects_witness:
  "stateFunc conn4 = connected_fn \<and> txStore_clean conn4
   \<and> Validate \<lparr>Command = SEND,
        Headers = [(Destination, ''/q''), (Transaction, ''t1''), (Receipt, ''r2'')], Body = ''hi''\<rparr> = None
   \<and> SEND \<in> set receipt_commands \<and> next_write_ok (sock conn4)
   \<and> (\<exists>c' f' err. call_stateFunc (Suc (Suc 0)) conn4
          \<lparr>Command = SEND,
           Headers = [(Destination, ''/q''), (Transaction, ''t1''), (Receipt, ''r2'')], Body = ''hi''\<rparr>
          = Some (c', f', err)
        \<and> txStore_clean c' \<and> \<not> snd (Contains (Headers f') Receipt)
        \<and> (\<exists>rest. trace c' =
              trace conn4 @ Wrote (Some (NewFrame RECEIPT [(ReceiptId, ''r2'')])) # rest))"
proof -
  let ?f = "\<lparr>Command = SEND,
        Headers = [(Destination, ''/q''), (Transaction, ''t1''), (Receipt, ''r2'')], Body = ''hi''\<rparr>"
  have st: "stateFunc conn4 = connected_fn"
    by (simp add: conn4_def conn1_def)
  have inv: "txStore_clean conn4"
    by (simp add: conn4_def conn1_def conn0_def NewConn_def txStore_clean_def)
  have v: "Validate ?f = None" by (simp add: Validate_def)
  have cm: "Command ?f \<in> set receipt_commands" by (simp add: receipt_commands_def)
  have rc: "Contains (Headers ?f) Receipt = (''r2'', True)" by simp
  have w: "next_write_ok (sock conn4)"
    by (simp add: conn4_def conn1_def conn0_def NewConn_def next_write_ok_def)
  from receipt_before_effects [OF st inv, of 0 ?f "''r2''"]
  obtain c' f' err where
    a: "call_stateFunc (Suc (Suc 0)) conn4 ?f = Some (c', f', err)" "txStore_clean c'"
    and b: "Validate ?f = None \<and> Command ?f \<in> set receipt_commands
          \<and> Contains (Headers ?f) Receipt = (''r2'', True) \<longrightarrow>
            \<not> snd (Contains (Headers f') Receipt)
          \<and> (if next_write_ok (sock conn4)
             then \<exists>rest. trace c' =
                    trace conn4 @ Wrote (Some (NewFrame RECEIPT [(ReceiptId, ''r2'')])) # rest
             else trace c' = trace conn4 \<and> err = Some writeFailed)"
    by blast
  from b v cm rc w have "\<not> snd (Contains (Headers f') Receipt)"
    and "\<exists>rest. trace c' = trace conn4 @ Wrote (Some (NewFrame RECEIPT [(ReceiptId, ''r2'')])) # rest"
    by simp_all
  with a have "\<exists>c' f' err. call_stateFunc (Suc (Suc 0)) conn4 ?f = Some (c', f', err)
        \<and> txStore_clean c' \<and> \<not> snd (Contains (Headers f') Receipt)
        \<and> (\<exists>rest. trace c' =
              trace conn4 @ Wrote (Some (NewFrame RECEIPT [(ReceiptId, ''r2'')])) # rest)"
    by (intro exI [of _ c'] exI [of _ f'] exI [of _ err] conjI)
  with st inv v cm w show ?thesis by simp
qed

text \<open>
  Scenario S3 of the spec: a SEND in the transaction \<^verbatim>\<open>t1\<close> with \<^verbatim>\<open>receipt:r2\<close> is answered
  with the RECEIPT and then stored without its \<^verbatim>\<open>transaction\<close> and \<^verbatim>\<open>receipt\<close> headers.
\<close>

lemma S3_SEND_in_transaction:
  "map_option (\<lambda>r. (trace (fst r), txStore (fst r) ''t1'', snd r))
     (call_stateFunc (Suc (Suc 0)) conn4
        \<lparr>Command = SEND,
         Headers = [(Destination, ''/q''), (Transaction, ''t1''), (Receipt, ''r2'')], Body = ''hi''\<rparr>)
   = Some ([Wrote (Some \<lparr>Command = RECEIPT, Headers = [(ReceiptId, ''r2'')], Body = []\<rparr>),
            Stored ''t1'' \<lparr>Command = SEND, Headers = [(Destination, ''/q'')], Body = ''hi''\<rparr>],
           Some [\<lparr>Command = SEND, Headers = [(Destination, ''/q'')], Body = ''hi''\<rparr>],
           \<lparr>Command = SEND, Headers = [(Destination, ''/q'')], Body = ''hi''\<rparr>, None)"
  by (simp add: conn4_def conn1_def conn0_def NewConn_def connected_def handleSend_def
      sendReceiptImmediately_def sendImmediately_def Write_def emit_def NewFrame_def Append_def
      Remove_hdr_def txStore_Add_def Let_def)

subsection \<open>The store in every state of a session\<close>

text \<open>
  The store is clean when the connection is made, and every turn of the processing loop
  leaves it clean: no frame that has passed through \<^verbatim>\<open>handleSend\<close> into the store has a
  \<^verbatim>\<open>receipt\<close> header, at any time.
\<close>

lemma txStore_Write [simp]: "txStore (fst (Write c f)) = txStore c"
  by (simp add: Write_def emit_def split: list.splits)

lemma txStore_sendErrorImmediately [simp]: "txStore (sendErrorImmediately c err f) = txStore c"
  by (simp add: sendErrorImmediately_def sendImmediately_def Let_def)

lemma txStore_allocateMessageId [simp]: "txStore (fst (allocateMessageId c f sub)) = txStore c"
  by (simp add: allocateMessageId_def Let_def split: option.splits)

lemma txStore_from_writeChannel [simp]: "txStore (fst (from_writeChannel c f)) = txStore c"
proof -
  obtain c1 f1 p where a: "allocateMessageId c f None = (c1, f1, p)"
    by (cases "allocateMessageId c f None")
  then have t: "txStore c1 = txStore c" using txStore_allocateMessageId [of c f None] by simp
  obtain c2 e where w: "Write c1 (Some f1) = (c2, e)" by (cases "Write c1 (Some f1)")
  then have "txStore c2 = txStore c1" using txStore_Write [of c1 "Some f1"] by simp
  with a w t show ?thesis
    by (simp add: from_writeChannel_def split: option.splits)
qed

lemma txStore_from_timerChannel [simp]: "txStore (fst (from_timerChannel c)) = txStore c"
proof -
  obtain c2 e where w: "Write c None = (c2, e)" by (cases "Write c None")
  then have "txStore c2 = txStore c" using txStore_Write [of c None] by simp
  with w show ?thesis by (simp add: from_timerChannel_def split: option.splits)
qed

lemma txStore_from_subChannel [simp]: "txStore (fst (from_subChannel c sub)) = txStore c"
proof (cases "sub_frame (subscriptions (mem c) sub)")
  case None
  then show ?thesis by (simp add: from_subChannel_def)
next
  case (Some f)
  obtain c1 f1 p where a: "allocateMessageId c f (Some sub) = (c1, f1, p)"
    by (cases "allocateMessageId c f (Some sub)")
  then have t: "txStore c1 = txStore c" using txStore_allocateMessageId [of c f "Some sub"] by simp
  let ?c1 = "c1\<lparr>mem := set_frame (mem c1) sub f1\<rparr>"
  obtain c2 e where w: "Write ?c1 (Some f1) = (c2, e)" by (cases "Write ?c1 (Some f1)")
  then have "txStore c2 = txStore ?c1" using txStore_Write [of ?c1 "Some f1"] by simp
  with Some a w t show ?thesis
    by (simp add: from_subChannel_def emit_def split: option.splits sum.splits)
qed

lemma txStore_clean_cleanupConn: "txStore_clean (cleanupConn c late)"
proof -
  have u: "txStore (unsubscribe_all c xs) = txStore c" for c xs
    by (simp add: unsubscribe_all_eq)
  have r: "txStore (requeue_all c xs) = txStore c" for c xs
    by (simp add: requeue_all_eq)
  have "txStore (cleanupConn c late) = txStore_Init"
    using requeue_subList_props
      [of "(unsubscribe_all (discardWriteChannelFrames (c\<lparr>txStore := txStore_Init\<rparr>))
             (subs (discardWriteChannelFrames (c\<lparr>txStore := txStore_Init\<rparr>))))\<lparr>subs := []\<rparr>"]
    by (simp add: cleanupConn_def Let_def cleanupSubChannel_def discardWriteChannelFrames_def
        emit_def u r)
  then show ?thesis by (simp add: txStore_clean_def)
qed

lemma turn_keeps_store_clean:
  assumes inv: "txStore_clean c" and t: "turn (Suc (Suc m)) c i = Some (c', out)"
  shows "txStore_clean c'"
proof (cases "blocked c")
  case True
  with t inv show ?thesis by (simp add: turn_def)
next
  case nb: False
  show ?thesis
  proof (cases i)
    case (Upper_Send f)
    with t inv nb show ?thesis by (auto simp: turn_def txStore_clean_def split: if_splits)
  next
    case (Upper_Deliver s)
    with t inv nb show ?thesis by (auto simp: turn_def txStore_clean_def split: if_splits)
  next
    case Select_writeChannel
    show ?thesis
    proof (cases "writeChannel c")
      case Nil
      with t inv nb Select_writeChannel show ?thesis by (simp add: turn_def)
    next
      case (Cons f rest)
      with t nb Select_writeChannel
      have "c' = fst (from_writeChannel (c\<lparr>writeChannel := rest\<rparr>) f)" by (simp add: turn_def)
      then have "txStore c' = txStore c" by simp
      with inv show ?thesis by (simp add: txStore_clean_def)
    qed
  next
    case Select_subChannel
    show ?thesis
    proof (cases "subChannel c")
      case Nil
      with t inv nb Select_subChannel show ?thesis by (simp add: turn_def)
    next
      case (Cons s rest)
      with t nb Select_subChannel
      have "c' = fst (from_subChannel (c\<lparr>subChannel := rest\<rparr>) s)" by (simp add: turn_def)
      then have "txStore c' = txStore c" by simp
      with inv show ?thesis by (simp add: txStore_clean_def)
    qed
  next
    case Select_timer
    with t nb have "c' = c \<or> c' = fst (from_timerChannel c)"
      by (auto simp: turn_def split: if_splits)
    then have "txStore c' = txStore c" by auto
    with inv show ?thesis by (simp add: txStore_clean_def)
  next
    case (Select_readChannel fo)
    show ?thesis
    proof (cases fo)
      case None
      with t inv nb Select_readChannel show ?thesis by (simp add: turn_def)
    next
      case (Some f)
      with t nb Select_readChannel
      have r: "from_readChannel (Suc (Suc m)) c f = Some (c', out)" by (simp add: turn_def)
      show ?thesis
      proof (cases "Validate f")
        case (Some err)
        with r have "c' = sendErrorImmediately c err (Some f)"
          by (simp add: from_readChannel_def)
        then have "txStore c' = txStore c" by simp
        with inv show ?thesis by (simp add: txStore_clean_def)
      next
        case None
        have "\<exists>c1 f1 e. call_stateFunc (Suc (Suc m)) c f = Some (c1, f1, e) \<and> txStore_clean c1"
        proof (cases "stateFunc c")
          case connecting_fn
          then have "call_stateFunc (Suc (Suc m)) c f = Some (connecting c f)" by simp
          moreover have "txStore_clean (fst (connecting c f))"
            using inv connecting_keeps_txStore [of c f] by (simp add: txStore_clean_def)
          ultimately show ?thesis by (cases "connecting c f") auto
        next
          case connected_fn
          from connected_good [OF inv connected_fn, of m f] obtain res where
            "connected (\<lambda>c' f'. map_option drop_frame (call_stateFunc (Suc m) c' f')) c f = Some res"
            and "txStore_clean (fst res)"
            by blast
          with connected_fn show ?thesis
            by (cases res) (simp del: call_stateFunc.simps add: call_stateFunc.simps(2) [of "Suc m"])
        qed
        then obtain c1 f1 e where
          cs: "call_stateFunc (Suc (Suc m)) c f = Some (c1, f1, e)" and i1: "txStore_clean c1"
          by blast
        from r None cs have "c' = c1 \<or> (\<exists>err. c' = sendErrorImmediately c1 err (Some f1))"
          by (auto simp: from_readChannel_def simp del: call_stateFunc.simps split: option.splits)
        then have "txStore c' = txStore c1" by auto
        with i1 show ?thesis by (simp add: txStore_clean_def)
      qed
    qed
  qed
qed

lemma processLoop_from_keeps_store_clean:
  "txStore_clean c \<Longrightarrow> processLoop_from (Suc (Suc m)) c inputs = Some (c', out)
     \<Longrightarrow> txStore_clean c'"
proof (induction inputs arbitrary: c)
  case Nil
  then show ?case by simp
next
  case (Cons i inputs)
  show ?case
  proof (cases "turn (Suc (Suc m)) c i")
    case None
    with Cons.prems show ?thesis by (simp del: call_stateFunc.simps)
  next
    case (Some r)
    obtain c1 o1 where r: "r = (c1, o1)" by (cases r)
    with Some have t: "turn (Suc (Suc m)) c i = Some (c1, o1)" by simp
    from turn_keeps_store_clean [OF Cons.prems(1) t] have i1: "txStore_clean c1" .
    show ?thesis
    proof (cases o1)
      case Continue
      with t Cons.prems(2) have "processLoop_from (Suc (Suc m)) c1 inputs = Some (c', out)"
        by (simp del: call_stateFunc.simps)
      with i1 show ?thesis by (rule Cons.IH)
    next
      case Return
      with t Cons.prems(2) have "c' = cleanupConn c1 []" by (simp del: call_stateFunc.simps)
      then show ?thesis by (simp add: txStore_clean_cleanupConn)
    next
      case (Panicked p)
      with t Cons.prems(2) have "c' = cleanupConn c1 []" by (simp del: call_stateFunc.simps)
      then show ?thesis by (simp add: txStore_clean_cleanupConn)
    qed
  qed
qed

lemma session_store_clean:
  "processLoop (Suc (Suc m)) (NewConn cfg h sl net) inputs = Some (c', out) \<Longrightarrow> txStore_clean c'"
proof -
  have "txStore_clean ((NewConn cfg h sl net)\<lparr>stateFunc := connecting_fn\<rparr>)"
    using txStore_clean_NewConn [of cfg h sl net] by (simp add: txStore_clean_def)
  then show "processLoop (Suc (Suc m)) (NewConn cfg h sl net) inputs = Some (c', out)
      \<Longrightarrow> txStore_clean c'"
    unfolding processLoop_def by (rule processLoop_from_keeps_store_clean)
qed

end
